theory Spec2Isabelle
  imports Complex_Main "HOL-Library.Monad_Syntax"
begin

section \<open>Values and errors\<close>

text \<open>
  Tensors are nested lists of reals, one list level per axis: a capsule tensor
  \<open>[batch, capsule, dim]\<close> is a \<open>tensor3\<close>, an image batch
  \<open>[batch, channel, height, width]\<close> a \<open>tensor4\<close>. Floating-point numbers are
  modelled by the reals. A Python exception is a value of \<open>error\<close>; a tensor
  operation that raises returns \<open>None\<close>.
\<close>

type_synonym tensor2 = "real list list"
type_synonym tensor3 = "real list list list"
type_synonym tensor4 = "real list list list list"

text \<open>
  A nested list has shape \<open>[B, K]\<close> when it has \<open>B\<close> rows of \<open>K\<close> entries, and so on
  for the higher ranks. A tensor with an axis of size zero has no faithful nested list
  (its inner sizes are lost), so the properties below ask for positive sizes where an
  operation of the source depends on them.
\<close>

definition has_shape2 :: "nat \<Rightarrow> nat \<Rightarrow> 'a list list \<Rightarrow> bool" where
  "has_shape2 B K t = (length t = B \<and> list_all (\<lambda>r. length r = K) t)"

definition has_shape3 :: "nat \<Rightarrow> nat \<Rightarrow> nat \<Rightarrow> 'a list list list \<Rightarrow> bool" where
  "has_shape3 B K D t = (length t = B \<and> list_all (has_shape2 K D) t)"

definition has_shape4 :: "nat \<Rightarrow> nat \<Rightarrow> nat \<Rightarrow> nat \<Rightarrow> 'a list list list list \<Rightarrow> bool" where
  "has_shape4 B C H V t = (length t = B \<and> list_all (has_shape3 C H V) t)"

datatype error =
    AttributeError string
  | UnboundLocalError string
  | ZeroDivisionError

text \<open>A module object is modelled by its \<open>forward\<close>: calling it may raise.\<close>

type_synonym ('a, 'b) module = "'a \<Rightarrow> 'b option"

section \<open>main.py: the argument namespace and the model name\<close>

text \<open>
  The namespace \<open>argparse\<close> returns has one attribute per declared argument.
  \<open>modelname\<close> and \<open>num_classes\<close> are not declared arguments: they exist only
  once the script has assigned them, so they are optional fields.
\<close>

record args =
  dataset :: string
  batch_size :: int
  epochs :: int
  learning_rate :: real
  num_routing :: int
  routing :: string
  lr_decay :: real
  device :: string
  multi_gpu :: bool
  gpu_device :: "int option"
  data_path :: string
  residual :: bool
  conflicts :: bool
  cb_batch_size :: int
  momentum :: bool
  gamma :: real
  num_res_blocks :: int
  num_caps :: int
  optimizer :: string
  modelname :: "string option"
  num_classes :: "int option"

text \<open>Python's \<open>str\<close> on an integer: its decimal digits, with a sign when negative.\<close>

definition digit_char :: "nat \<Rightarrow> char" where
  "digit_char d = ''0123456789'' ! d"

function str_nat :: "nat \<Rightarrow> string" where
  "str_nat n = (if n < 10 then [digit_char n] else str_nat (n div 10) @ [digit_char (n mod 10)])"
  by pat_completeness auto
termination
  by (relation "measure id") auto

declare str_nat.simps [simp del]

definition str_int :: "int \<Rightarrow> string" where
  "str_int i = (if i < 0 then CHR ''-'' # str_nat (nat (- i)) else str_nat (nat i))"

text \<open>
  Lines 80 to 85 of main.py: an \<open>if\<close>/\<open>elif\<close>/\<open>elif\<close> chain with no
  \<open>else\<close>. When no branch is taken the namespace is left as it was.
\<close>

definition assign_modelname :: "args \<Rightarrow> args" where
  "assign_modelname a =
     (if \<not> residual a \<and> \<not> momentum a then
        a\<lparr>modelname := Some (''CapsNet_'' @ str_int (num_res_blocks a))\<rparr>
      else if residual a \<and> \<not> momentum a then
        a\<lparr>modelname := Some (''ResCapsNet_'' @ str_int (num_res_blocks a))\<rparr>
      else if residual a \<and> momentum a then
        a\<lparr>modelname := Some (''MoCapsNet_'' @ str_int (num_res_blocks a))\<rparr>
      else a)"

section \<open>Constructors of the collaborating layer classes\<close>

text \<open>
  The layer classes the network is assembled from are collaborators: \<open>Conv2d\<close>
  and \<open>Linear\<close> belong to the tensor library, \<open>PrimaryCapsules\<close> and
  \<open>RoutingCapsules\<close> to the capsules module. Each constructor is a parameter. It
  takes the constructor arguments and a state \<open>'s\<close> (the random generator that
  draws the initial weights), and returns the layer or an error, with the next state.
\<close>

type_synonym ('s, 'a) ctor = "'s \<Rightarrow> (error + 'a) \<times> 's"

definition return_ctor :: "'a \<Rightarrow> ('s, 'a) ctor" where
  "return_ctor a s = (Inr a, s)"

definition bind_ctor :: "('s, 'a) ctor \<Rightarrow> ('a \<Rightarrow> ('s, 'b) ctor) \<Rightarrow> ('s, 'b) ctor" where
  "bind_ctor m f s = (case m s of (Inl e, s') \<Rightarrow> (Inl e, s') | (Inr a, s') \<Rightarrow> f a s')"

record 's library =
  Conv2d :: "int \<Rightarrow> int \<Rightarrow> int \<Rightarrow> ('s, (tensor4, tensor4) module) ctor"
  PrimaryCapsules :: "int \<Rightarrow> int \<Rightarrow> int \<Rightarrow> int \<Rightarrow> ('s, (tensor4, tensor3) module) ctor"
  RoutingCapsules :: "int \<Rightarrow> int \<Rightarrow> int \<Rightarrow> int \<Rightarrow> int \<Rightarrow> ('s, (tensor3, tensor3) module) ctor"
  Linear :: "int \<Rightarrow> int \<Rightarrow> ('s, (tensor2, tensor2) module) ctor"

section \<open>model.py: construction\<close>

record ResCapsBlock =
  skip :: bool
  "functions" :: "(tensor3, tensor3) module list"

text \<open>
  \<open>ResCapsBlock.__init__\<close>: stores \<open>skip\<close> and builds two routing layers with the
  same constructor arguments, one after the other (\<open>for _ in range(2)\<close>). It
  compares none of its arguments.
\<close>

fun routing_layers :: "'s library \<Rightarrow> nat \<Rightarrow> int \<Rightarrow> int \<Rightarrow> int \<Rightarrow> int \<Rightarrow> int \<Rightarrow>
    ('s, (tensor3, tensor3) module list) ctor" where
  "routing_layers lib 0 in_dim in_caps nc out_dim nr = return_ctor []"
| "routing_layers lib (Suc n) in_dim in_caps nc out_dim nr =
     bind_ctor (RoutingCapsules lib in_dim in_caps nc out_dim nr) (\<lambda>f.
     bind_ctor (routing_layers lib n in_dim in_caps nc out_dim nr) (\<lambda>fs.
     return_ctor (f # fs)))"

definition ResCapsBlock_init :: "'s library \<Rightarrow> int \<Rightarrow> int \<Rightarrow> int \<Rightarrow> int \<Rightarrow> int \<Rightarrow> bool \<Rightarrow>
    ('s, ResCapsBlock) ctor" where
  "ResCapsBlock_init lib in_dim in_caps nc out_dim nr skip_flag =
     bind_ctor (routing_layers lib 2 in_dim in_caps nc out_dim nr) (\<lambda>fs.
     return_ctor \<lparr>skip = skip_flag, functions = fs\<rparr>)"

text \<open>
  The two parameter-free layers of the tensor library: the rectifier and the logistic
  function, applied to every entry.
\<close>

definition relu :: "real \<Rightarrow> real" where
  "relu v = max 0 v"

definition sigmoid :: "real \<Rightarrow> real" where
  "sigmoid v = 1 / (1 + exp (- v))"

definition ReLU2 :: "(tensor2, tensor2) module" where
  "ReLU2 t = Some (map (map relu) t)"

definition ReLU4 :: "(tensor4, tensor4) module" where
  "ReLU4 t = Some (map (map (map (map relu))) t)"

definition Sigmoid :: "(tensor2, tensor2) module" where
  "Sigmoid t = Some (map (map sigmoid) t)"

text \<open>\<open>nn.Sequential\<close>: the layers in order, stopping at the first that raises.\<close>

fun Sequential :: "('a, 'a) module list \<Rightarrow> ('a, 'a) module" where
  "Sequential [] x = Some x"
| "Sequential (f # fs) x = (case f x of None \<Rightarrow> None | Some y \<Rightarrow> Sequential fs y)"

record CapsuleNetwork =
  img_shape :: "nat \<times> nat \<times> nat"
  net_num_classes :: int
  conv1 :: "(tensor4, tensor4) module"
  primary :: "(tensor4, tensor3) module"
  caps1 :: "(tensor3, tensor3) module"
  blocks :: "ResCapsBlock list"
  caps2 :: "(tensor3, tensor3) module"
  decoder :: "(tensor2, tensor2) module"

text \<open>Python's \<open>int\<close> on a float truncates towards zero.\<close>

definition py_int :: "real \<Rightarrow> int" where
  "py_int r = (if 0 \<le> r then \<lfloor>r\<rfloor> else \<lceil>r\<rceil>)"

text \<open>
  Lines 51 and 52 of model.py. \<open>/\<close> is Python's true division: it raises on a zero
  divisor and yields a float otherwise.
\<close>

definition primary_caps_count :: "int \<Rightarrow> int \<Rightarrow> nat \<times> nat \<times> nat \<Rightarrow> int \<Rightarrow> error + int" where
  "primary_caps_count channels primary_dim shp kernel_size =
     (case shp of (c, h, w) \<Rightarrow>
        if primary_dim = 0 then Inl ZeroDivisionError
        else Inr (py_int (real_of_int channels / real_of_int primary_dim
                          * real_of_int (int h - 2 * (kernel_size - 1))
                          * real_of_int (int w - 2 * (kernel_size - 1)) / 4)))"

definition lift_ctor :: "error + 'a \<Rightarrow> ('s, 'a) ctor" where
  "lift_ctor r s = (r, s)"

definition prod_shape :: "nat \<times> nat \<times> nat \<Rightarrow> nat" where
  "prod_shape shp = (case shp of (c, h, w) \<Rightarrow> c * h * w)"

text \<open>
  Lines 58 to 61: one block per iteration of \<open>range(args.num_res_blocks)\<close>, each
  built with the literal capsule counts \<open>32, 32\<close> and appended in order.
\<close>

fun res_blocks :: "'s library \<Rightarrow> nat \<Rightarrow> int \<Rightarrow> int \<Rightarrow> bool \<Rightarrow> ('s, ResCapsBlock list) ctor" where
  "res_blocks lib 0 primary_dim nr res = return_ctor []"
| "res_blocks lib (Suc n) primary_dim nr res =
     bind_ctor (ResCapsBlock_init lib primary_dim 32 32 primary_dim nr res) (\<lambda>b.
     bind_ctor (res_blocks lib n primary_dim nr res) (\<lambda>bs.
     return_ctor (b # bs)))"

text \<open>
  \<open>CapsuleNetwork.__init__\<close>, in the order of its statements. Of the namespace it
  reads \<open>num_routing\<close>, \<open>num_res_blocks\<close> and \<open>residual\<close>. The \<open>device\<close> argument
  only places tensors and is left out; the rectifier has no parameters and is used
  directly in the forward pass.
\<close>

definition CapsuleNetwork_init :: "'s library \<Rightarrow> args \<Rightarrow> nat \<times> nat \<times> nat \<Rightarrow> int \<Rightarrow> int \<Rightarrow> int \<Rightarrow>
    int \<Rightarrow> int \<Rightarrow> ('s, CapsuleNetwork) ctor" where
  "CapsuleNetwork_init lib a shp channels primary_dim nc out_dim kernel_size =
     bind_ctor (Conv2d lib (int (fst shp)) channels kernel_size) (\<lambda>c1.
     bind_ctor (PrimaryCapsules lib channels channels primary_dim kernel_size) (\<lambda>p.
     bind_ctor (lift_ctor (primary_caps_count channels primary_dim shp kernel_size)) (\<lambda>primary_caps.
     bind_ctor (RoutingCapsules lib primary_dim primary_caps 32 primary_dim (num_routing a)) (\<lambda>k1.
     bind_ctor (res_blocks lib (nat (num_res_blocks a)) primary_dim (num_routing a) (residual a)) (\<lambda>bs.
     bind_ctor (RoutingCapsules lib primary_dim 32 nc out_dim (num_routing a)) (\<lambda>k2.
     bind_ctor (Linear lib (out_dim * nc) 512) (\<lambda>l1.
     bind_ctor (Linear lib 512 1024) (\<lambda>l2.
     bind_ctor (Linear lib 1024 (int (prod_shape shp))) (\<lambda>l3.
     return_ctor
       \<lparr>img_shape = shp, net_num_classes = nc, conv1 = c1, primary = p, caps1 = k1,
        blocks = bs, caps2 = k2,
        decoder = Sequential [l1, ReLU2, l2, ReLU2, l3, Sigmoid]\<rparr>)))))))))"

section \<open>Tensor operations used by the forward passes\<close>

text \<open>
  Broadcasting along one axis, for operands of the same rank: the lengths agree, or
  one of them is 1 and its only entry is repeated; any other pair of lengths raises.
\<close>

definition broadcast2 :: "('a \<Rightarrow> 'b \<Rightarrow> 'c option) \<Rightarrow> 'a list \<Rightarrow> 'b list \<Rightarrow> 'c list option" where
  "broadcast2 f xs ys =
     (if length xs = length ys then those (map2 f xs ys)
      else if length xs = 1 then those (map (f (hd xs)) ys)
      else if length ys = 1 then those (map (\<lambda>x. f x (hd ys)) xs)
      else None)"

definition tadd3 :: "tensor3 \<Rightarrow> tensor3 \<Rightarrow> tensor3 option" where
  "tadd3 = broadcast2 (broadcast2 (broadcast2 (\<lambda>a b. Some (a + b))))"

definition tmul3 :: "tensor3 \<Rightarrow> tensor3 \<Rightarrow> tensor3 option" where
  "tmul3 = broadcast2 (broadcast2 (broadcast2 (\<lambda>a b. Some (a * b))))"

text \<open>\<open>torch.norm(out, dim=-1)\<close>: the Euclidean norm of every last-axis vector.\<close>

definition vector_norm :: "real list \<Rightarrow> real" where
  "vector_norm v = sqrt (sum_list (map (\<lambda>x. x\<^sup>2) v))"

definition norm_last :: "tensor3 \<Rightarrow> tensor2" where
  "norm_last t = map (map vector_norm) t"

text \<open>
  The index \<open>max(dim=1)\<close> returns for one row: a scan that replaces the best entry
  only by a strictly larger one, so the first of several maximal entries is kept. A
  row without entries raises.
\<close>

fun argmax_from :: "real \<Rightarrow> nat \<Rightarrow> nat \<Rightarrow> real list \<Rightarrow> nat" where
  "argmax_from best bi i [] = bi"
| "argmax_from best bi i (x # xs) =
     (if best < x then argmax_from x i (Suc i) xs else argmax_from best bi (Suc i) xs)"

definition argmax :: "real list \<Rightarrow> nat option" where
  "argmax xs = (case xs of [] \<Rightarrow> None | x # r \<Rightarrow> Some (argmax_from x 0 1 r))"

definition max_dim1 :: "tensor2 \<Rightarrow> nat list option" where
  "max_dim1 t = those (map argmax t)"

definition eye :: "int \<Rightarrow> tensor2 option" where
  "eye n = (if n < 0 then None
            else Some (map (\<lambda>i. map (\<lambda>j. if i = j then 1 else 0) [0..<nat n]) [0..<nat n]))"

definition index_select0 :: "'a list \<Rightarrow> nat list \<Rightarrow> 'a list option" where
  "index_select0 t idx = (if list_all (\<lambda>i. i < length t) idx then Some (map (\<lambda>i. t ! i) idx) else None)"

definition unsqueeze2 :: "tensor2 \<Rightarrow> tensor3" where
  "unsqueeze2 t = map (map (\<lambda>v. [v])) t"

text \<open>
  \<open>view\<close> keeps the entries in row-major order and regroups them. \<open>pieces n k xs\<close>
  are the first \<open>n\<close> consecutive runs of \<open>k\<close> entries of \<open>xs\<close>. A \<open>-1\<close> in the
  requested shape is inferred from the number of entries; \<open>view\<close> raises when the
  other sizes multiply to zero or do not divide the number of entries.
  \<open>view_rows n\<close> is \<open>view(n, -1)\<close> on a rank-3 tensor, \<open>view_images (c, h, w)\<close> is
  \<open>view(-1, c, h, w)\<close> on a rank-2 tensor.
\<close>

definition pieces :: "nat \<Rightarrow> nat \<Rightarrow> 'a list \<Rightarrow> 'a list list" where
  "pieces n k xs = map (\<lambda>i. take k (drop (i * k) xs)) [0..<n]"

definition view_rows :: "nat \<Rightarrow> tensor3 \<Rightarrow> tensor2 option" where
  "view_rows n t =
     (let flat = concat (concat t) in
      if n = 0 \<or> length flat mod n \<noteq> 0 then None
      else Some (pieces n (length flat div n) flat))"

definition view_images :: "nat \<times> nat \<times> nat \<Rightarrow> tensor2 \<Rightarrow> tensor4 option" where
  "view_images shp t =
     (case shp of (c, h, w) \<Rightarrow>
        let flat = concat t in
        if c * h * w = 0 \<or> length flat mod (c * h * w) \<noteq> 0 then None
        else Some (map (\<lambda>img. map (pieces h w) (pieces c (h * w) img))
                       (pieces (length flat div (c * h * w)) (c * h * w) flat)))"

section \<open>model.py: the forward passes\<close>

text \<open>
  \<open>ResCapsBlock.forward\<close>: the loop over \<open>self.functions\<close>. With \<open>skip\<close> the input
  of each function is added to its output before the next function runs.
\<close>

fun apply_functions :: "bool \<Rightarrow> (tensor3, tensor3) module list \<Rightarrow> tensor3 \<Rightarrow> tensor3 option" where
  "apply_functions sk [] x = Some x"
| "apply_functions sk (f # fs) x =
     (if sk then do { y \<leftarrow> f x; x' \<leftarrow> tadd3 x y; apply_functions sk fs x' }
      else do { x' \<leftarrow> f x; apply_functions sk fs x' })"

definition ResCapsBlock_forward :: "ResCapsBlock \<Rightarrow> tensor3 \<Rightarrow> tensor3 option" where
  "ResCapsBlock_forward blk x = apply_functions (skip blk) (functions blk) x"

text \<open>Lines 83 to 86: the blocks in order, each output appended to \<open>layers\<close>.\<close>

fun run_blocks :: "ResCapsBlock list \<Rightarrow> tensor3 \<Rightarrow> tensor3 list \<Rightarrow> (tensor3 \<times> tensor3 list) option" where
  "run_blocks [] out layers = Some (out, layers)"
| "run_blocks (b # bs) out layers =
     do { out' \<leftarrow> ResCapsBlock_forward b out; run_blocks bs out' (layers @ [out']) }"

text \<open>
  Lines 89 to 96: the class scores, the index of the longest capsule of each example,
  the selected rows of the identity matrix, and the masked capsules regrouped into one
  row per example, which is what the decoder receives.
\<close>

definition decoder_input :: "int \<Rightarrow> tensor3 \<Rightarrow> (tensor2 \<times> tensor2) option" where
  "decoder_input nc out =
     do {
       let preds = norm_last out;
       max_length_idx \<leftarrow> max_dim1 preds;
       y \<leftarrow> eye nc;
       y \<leftarrow> index_select0 y max_length_idx;
       let y = unsqueeze2 y;
       masked \<leftarrow> tmul3 out y;
       flat \<leftarrow> view_rows (length out) masked;
       Some (preds, flat)
     }"

text \<open>Lines 78 to 81: convolution, rectifier, primary capsules, first routing stage.\<close>

definition first_stage :: "CapsuleNetwork \<Rightarrow> tensor4 \<Rightarrow> tensor3 option" where
  "first_stage net x =
     do {
       out \<leftarrow> conv1 net x;
       out \<leftarrow> ReLU4 out;
       out \<leftarrow> primary net out;
       caps1 net out
     }"

definition CapsuleNetwork_forward :: "CapsuleNetwork \<Rightarrow> tensor4 \<Rightarrow> (tensor2 \<times> tensor4 \<times> tensor3 list) option" where
  "CapsuleNetwork_forward net x =
     do {
       out \<leftarrow> first_stage net x;
       (out, layers) \<leftarrow> run_blocks (blocks net) out [];
       out \<leftarrow> caps2 net out;
       (preds, flat) \<leftarrow> decoder_input (net_num_classes net) out;
       reconstructions \<leftarrow> decoder net flat;
       reconstructions \<leftarrow> view_images (img_shape net) reconstructions;
       Some (preds, reconstructions, layers)
     }"

section \<open>The loss criterion\<close>

text \<open>
  Modelled from the spec: the class \<open>CapsuleLoss\<close> of the module \<open>loss\<close>, which
  trainer.py imports and whose file is not among the sources. Section 4.6 of the spec:
  per class \<open>k\<close> the margin term is
  \<open>T_k * max(0, m+ - ||v_k||)^2 + lambda * (1 - T_k) * max(0, ||v_k|| - m-)^2\<close> with
  \<open>m+ = 0.9\<close> and \<open>m- = 0.1\<close>, summed over the classes and averaged over the batch;
  the total loss is the margin loss plus \<open>recon_loss_scale\<close> times the mean squared
  error between the original and the reconstructed images.
\<close>

record CapsuleLoss =
  loss_lambda :: real
  recon_loss_scale :: real

definition CapsuleLoss_init :: "real \<Rightarrow> real \<Rightarrow> CapsuleLoss" where
  "CapsuleLoss_init lam scale = \<lparr>loss_lambda = lam, recon_loss_scale = scale\<rparr>"

definition margin_term :: "real \<Rightarrow> real \<Rightarrow> real \<Rightarrow> real" where
  "margin_term lam v T =
     T * (max 0 (9 / 10 - v))\<^sup>2 + lam * (1 - T) * (max 0 (v - 1 / 10))\<^sup>2"

definition margin_loss :: "real \<Rightarrow> tensor2 \<Rightarrow> tensor2 \<Rightarrow> real" where
  "margin_loss lam inputs labels =
     sum_list (map2 (\<lambda>vs Ts. sum_list (map2 (margin_term lam) vs Ts)) inputs labels)
       / real (length inputs)"

definition entries4 :: "tensor4 \<Rightarrow> real list" where
  "entries4 t = concat (concat (concat t))"

definition reconstruction_MSE :: "tensor4 \<Rightarrow> tensor4 \<Rightarrow> real" where
  "reconstruction_MSE images reconstructions =
     sum_list (map2 (\<lambda>a b. (a - b)\<^sup>2) (entries4 images) (entries4 reconstructions))
       / real (length (entries4 images))"

definition CapsuleLoss_forward :: "CapsuleLoss \<Rightarrow> tensor2 \<Rightarrow> tensor2 \<Rightarrow> tensor4 \<Rightarrow> tensor4 \<Rightarrow> real" where
  "CapsuleLoss_forward crit inputs labels images reconstructions =
     margin_loss (loss_lambda crit) inputs labels
       + recon_loss_scale crit * reconstruction_MSE images reconstructions"

section \<open>trainer.py: construction of the trainer\<close>

datatype optimizer_object =
    Ranger21 real int int
  | Adam real

text \<open>
  The two wrappers the trainer may put around the network are collaborators, taken as
  parameters: the momentum transform, which receives the network, the names of the
  function sequences of the blocks and \<open>gamma\<close>, and the multi-device wrapper.
\<close>

record wrappers =
  transform_to_momentumnet :: "CapsuleNetwork \<Rightarrow> string list \<Rightarrow> real \<Rightarrow> CapsuleNetwork"
  DataParallel :: "CapsuleNetwork \<Rightarrow> CapsuleNetwork"

record CapsNetTrainer =
  self_multi_gpu :: bool
  self_batch_size :: int
  self_cb_batch_size :: int
  self_conflicts :: bool
  self_modelname :: string
  self_net :: CapsuleNetwork
  criterion :: CapsuleLoss
  self_optimizer :: optimizer_object
  scheduler :: "real option"

text \<open>Reading an attribute that was never assigned raises \<open>AttributeError\<close>.\<close>

definition getattr :: "string \<Rightarrow> 'a option \<Rightarrow> error + 'a" where
  "getattr name v = (case v of None \<Rightarrow> Inl (AttributeError name) | Some x \<Rightarrow> Inr x)"

definition block_names :: "int \<Rightarrow> string list" where
  "block_names n = map (\<lambda>k. ''blocks.'' @ str_int (int k) @ ''.functions'') [0..<nat n]"

text \<open>
  \<open>CapsNetTrainer.__init__\<close>, in the order of its statements. \<open>shp\<close> is the shape
  of the first training image, which line 42 reads from the loaders. The attributes
  read before \<open>modelname\<close> are declared arguments, so reading them cannot fail.
\<close>

definition CapsNetTrainer_init :: "'s library \<Rightarrow> wrappers \<Rightarrow> nat \<times> nat \<times> nat \<Rightarrow> args \<Rightarrow>
    ('s, CapsNetTrainer) ctor" where
  "CapsNetTrainer_init lib wrap shp a =
     bind_ctor (lift_ctor (getattr ''modelname'' (modelname a))) (\<lambda>name.
     bind_ctor (lift_ctor (getattr ''num_classes'' (num_classes a))) (\<lambda>nc.
     bind_ctor (CapsuleNetwork_init lib a shp 256 8 nc 16 9) (\<lambda>net0.
     let net1 = (if momentum a
                 then transform_to_momentumnet wrap net0 (block_names (num_res_blocks a)) (gamma a)
                 else net0);
         net2 = (if multi_gpu a then DataParallel wrap net1 else net1)
     in return_ctor
       \<lparr>self_multi_gpu = multi_gpu a, self_batch_size = batch_size a,
        self_cb_batch_size = cb_batch_size a, self_conflicts = conflicts a,
        self_modelname = name, self_net = net2,
        criterion = CapsuleLoss_init (1 / 2) (5 / 10 ^ 4),
        self_optimizer = (if optimizer a = ''ranger21''
                          then Ranger21 (learning_rate a) (epochs a) (batch_size a)
                          else Adam (learning_rate a)),
        scheduler = (if optimizer a = ''ranger21'' then None else Some (lr_decay a))\<rparr>)))"

section \<open>trainer.py: the loss and accuracy bookkeeping of one phase\<close>

text \<open>
  What one pass of the loop body obtains for one batch: \<open>loss.item()\<close>, the number
  of correct predictions, and the number of examples \<open>labels.size(0)\<close>.
\<close>

record batch_result =
  loss_item :: real
  n_correct :: nat
  n_examples :: nat

text \<open>
  The local variables of \<open>run\<close> that the bookkeeping touches. \<open>i\<close> and
  \<open>accuracy\<close> are unbound until a loop body has run once; being locals of \<open>run\<close>
  they keep their last value from one phase to the next.
\<close>

record run_vars =
  train_loss :: "real list"
  train_acc :: "real list"
  test_loss :: "real list"
  test_acc :: "real list"
  running_loss :: real
  correct :: nat
  total :: nat
  var_i :: "nat option"
  var_accuracy :: "real option"
  best_test_acc :: real
  best_epoch :: nat
  epochs_no_improve :: nat

text \<open>
  Lines 136 to 141: the loop over \<open>enumerate(layers)\<close> that measures the bundles
  uses \<open>i\<close> as its own index, so it rebinds the \<open>i\<close> of the batch loop.
\<close>

definition enumerate_layers :: "nat \<Rightarrow> nat option \<Rightarrow> nat option" where
  "enumerate_layers n_layers v = foldl (\<lambda>_ k. Some k) v [0..<n_layers]"

text \<open>Lines 105 to 141, for the batches from index \<open>idx\<close> on.\<close>

fun batch_loop :: "bool \<Rightarrow> nat \<Rightarrow> nat \<Rightarrow> batch_result list \<Rightarrow> run_vars \<Rightarrow> error + run_vars" where
  "batch_loop cb n_layers idx [] v = Inr v"
| "batch_loop cb n_layers idx (b # bs) v =
     (let v1 = v\<lparr>var_i := Some idx\<rparr>;
          v2 = v1\<lparr>running_loss := running_loss v1 + loss_item b\<rparr>;
          v3 = v2\<lparr>total := total v2 + n_examples b\<rparr>;
          v4 = v3\<lparr>correct := correct v3 + n_correct b\<rparr>
      in if total v4 = 0 then Inl ZeroDivisionError
         else
           let v5 = v4\<lparr>var_accuracy := Some (real (correct v4) / real (total v4))\<rparr>;
               v6 = (if idx = 0 \<and> cb then v5\<lparr>var_i := enumerate_layers n_layers (var_i v5)\<rparr> else v5)
           in batch_loop cb n_layers (Suc idx) bs v6)"

text \<open>The quotient \<open>running_loss/(i+i)\<close> of lines 144 and 147.\<close>

definition loss_over_i_plus_i :: "run_vars \<Rightarrow> error + real" where
  "loss_over_i_plus_i v =
     (case var_i v of
        None \<Rightarrow> Inl (UnboundLocalError ''i'')
      | Some k \<Rightarrow> if k + k = 0 then Inl ZeroDivisionError
                  else Inr (running_loss v / real (k + k)))"

datatype phase = Train | Test

definition read_accuracy :: "real option \<Rightarrow> error + real" where
  "read_accuracy v = (case v of None \<Rightarrow> Inl (UnboundLocalError ''accuracy'') | Some x \<Rightarrow> Inr x)"

text \<open>
  Lines 101 to 155 for one phase of epoch \<open>epoch\<close>: the counters are reset, the
  batches are processed, and the history is extended. The flag returned with the
  variables tells whether the early-stopping branch of line 155 is entered; the
  patience is the 10 of line 87.
\<close>

definition run_phase :: "phase \<Rightarrow> bool \<Rightarrow> nat \<Rightarrow> nat \<Rightarrow> batch_result list \<Rightarrow> run_vars \<Rightarrow>
    error + (run_vars \<times> bool)" where
  "run_phase ph cb n_layers epoch batches v =
     (case batch_loop cb n_layers 0 batches (v\<lparr>running_loss := 0, correct := 0, total := 0\<rparr>) of
        Inl e \<Rightarrow> Inl e
      | Inr v1 \<Rightarrow>
          (case loss_over_i_plus_i v1 of
             Inl e \<Rightarrow> Inl e
           | Inr l \<Rightarrow>
               (case read_accuracy (var_accuracy v1) of
                  Inl e \<Rightarrow> Inl e
                | Inr acc \<Rightarrow>
                    (case ph of
                       Train \<Rightarrow>
                         Inr (v1\<lparr>train_loss := train_loss v1 @ [l],
                                  train_acc := train_acc v1 @ [acc]\<rparr>, False)
                     | Test \<Rightarrow>
                         (let v2 = v1\<lparr>test_loss := test_loss v1 @ [l],
                                       test_acc := test_acc v1 @ [acc]\<rparr>
                          in if best_test_acc v2 < acc
                             then Inr (v2\<lparr>best_test_acc := acc, best_epoch := epoch,
                                          epochs_no_improve := 0\<rparr>, False)
                             else Inr (v2\<lparr>epochs_no_improve := epochs_no_improve v2 + 1\<rparr>,
                                       epochs_no_improve v2 + 1 = 10))))))"

section \<open>The capsule layers\<close>

text \<open>
  Modelled from the spec: the function \<open>squash\<close> of the module \<open>capsules\<close>, which
  model.py imports and whose file is not among the sources. Section 4.1 of the spec:
  \<open>v = (||s||^2 / (1 + ||s||^2)) * (s / ||s||)\<close>, with \<open>||s||\<close> clamped away from
  zero by a small epsilon before it divides. The spec names no value for the epsilon,
  so it is the parameter \<open>eps\<close>. A division by zero, whose floating-point result is
  NaN or infinite, is the value \<open>None\<close>.
\<close>

definition guarded_div :: "real \<Rightarrow> real \<Rightarrow> real option" where
  "guarded_div a b = (if b = 0 then None else Some (a / b))"

definition squash :: "real \<Rightarrow> real list \<Rightarrow> real list option" where
  "squash eps s =
     (let n = vector_norm s in
      do {
        scale \<leftarrow> guarded_div (n\<^sup>2) (1 + n\<^sup>2);
        those (map (\<lambda>x. do { u \<leftarrow> guarded_div x (max n eps); Some (scale * u) }) s)
      })"

text \<open>
  Modelled from the spec: the class \<open>RoutingCapsules\<close> of the module \<open>capsules\<close>,
  whose file is not among the sources. Section 3 of the spec gives its learned
  parameter \<open>W\<close> of shape \<open>[out_capsules, in_capsules, out_dim, in_dim]\<close>, section 4.3
  its forward pass: the prediction vectors \<open>u_hat[i][j] = W[j][i] x[i]\<close>, coupling
  logits that start at zero, and \<open>num_routing\<close> iterations of softmax over the
  output capsules, weighted sum over the input capsules, squash, and (except in the
  last iteration) the agreement update of the logits. An input whose shape does not
  match the configuration raises before any computation; so does, in this model, a
  layer whose \<open>W\<close> does not have the shape the constructor gives it.
\<close>

record routing_capsules =
  in_dim :: nat
  in_caps :: nat
  out_caps :: nat
  out_dim :: nat
  routing_iterations :: nat
  W :: "real list list list list"
  epsilon :: real

definition dot :: "real list \<Rightarrow> real list \<Rightarrow> real" where
  "dot u v = sum_list (map2 (*) u v)"

definition matvec :: "real list list \<Rightarrow> real list \<Rightarrow> real list" where
  "matvec M x = map (\<lambda>row. dot row x) M"

definition u_hat :: "routing_capsules \<Rightarrow> tensor2 \<Rightarrow> tensor3" where
  "u_hat L x =
     map (\<lambda>i. map (\<lambda>j. matvec (W L ! j ! i) (x ! i)) [0..<out_caps L]) [0..<in_caps L]"

definition softmax :: "real list \<Rightarrow> real list" where
  "softmax bs = map (\<lambda>b. exp b / sum_list (map exp bs)) bs"

definition weighted_sum :: "routing_capsules \<Rightarrow> tensor2 \<Rightarrow> tensor3 \<Rightarrow> nat \<Rightarrow> real list" where
  "weighted_sum L c u j =
     map (\<lambda>d. sum_list (map (\<lambda>i. c ! i ! j * (u ! i ! j ! d)) [0..<in_caps L])) [0..<out_dim L]"

definition route_output :: "routing_capsules \<Rightarrow> tensor3 \<Rightarrow> tensor2 \<Rightarrow> tensor2 option" where
  "route_output L u b =
     those (map (\<lambda>j. squash (epsilon L) (weighted_sum L (map softmax b) u j)) [0..<out_caps L])"

definition agreement_update :: "routing_capsules \<Rightarrow> tensor3 \<Rightarrow> tensor2 \<Rightarrow> tensor2 \<Rightarrow> tensor2" where
  "agreement_update L u v b =
     map (\<lambda>i. map (\<lambda>j. b ! i ! j + dot (u ! i ! j) (v ! j)) [0..<out_caps L]) [0..<in_caps L]"

fun routing_loop :: "nat \<Rightarrow> routing_capsules \<Rightarrow> tensor3 \<Rightarrow> tensor2 \<Rightarrow> tensor2 option" where
  "routing_loop 0 L u b = None"
| "routing_loop (Suc 0) L u b = route_output L u b"
| "routing_loop (Suc (Suc n)) L u b =
     do { v \<leftarrow> route_output L u b; routing_loop (Suc n) L u (agreement_update L u v b) }"

definition route_example :: "routing_capsules \<Rightarrow> tensor2 \<Rightarrow> tensor2 option" where
  "route_example L x =
     (if has_shape2 (in_caps L) (in_dim L) x
          \<and> has_shape4 (out_caps L) (in_caps L) (out_dim L) (in_dim L) (W L)
      then routing_loop (routing_iterations L) L (u_hat L x)
             (replicate (in_caps L) (replicate (out_caps L) 0))
      else None)"

definition RoutingCapsules_forward :: "routing_capsules \<Rightarrow> (tensor3, tensor3) module" where
  "RoutingCapsules_forward L x = those (map (route_example L) x)"

section \<open>Observing the constructor calls\<close>

text \<open>
  A library that only records: each constructor appends its arguments to the state,
  which is the list of the calls made so far, and returns a layer whose forward
  raises. It accepts every argument.
\<close>

datatype ctor_call =
    Conv2d_call int int int
  | PrimaryCapsules_call int int int int
  | RoutingCapsules_call int int int int int
  | Linear_call int int

definition recording_library :: "ctor_call list library" where
  "recording_library =
     \<lparr>Conv2d = (\<lambda>a b c s. (Inr (\<lambda>x. None), s @ [Conv2d_call a b c])),
      PrimaryCapsules = (\<lambda>a b c d s. (Inr (\<lambda>x. None), s @ [PrimaryCapsules_call a b c d])),
      RoutingCapsules = (\<lambda>a b c d e s. (Inr (\<lambda>x. None), s @ [RoutingCapsules_call a b c d e])),
      Linear = (\<lambda>a b s. (Inr (\<lambda>x. None), s @ [Linear_call a b]))\<rparr>"

definition identity_wrappers :: wrappers where
  "identity_wrappers = \<lparr>transform_to_momentumnet = (\<lambda>n names g. n), DataParallel = (\<lambda>n. n)\<rparr>"

text \<open>The namespace of a run without command-line arguments, on a machine without GPU.\<close>

definition default_args :: args where
  "default_args =
     \<lparr>dataset = ''MNIST'', batch_size = 128, epochs = 30, learning_rate = 1 / 10 ^ 3,
      num_routing = 3, routing = ''RBA'', lr_decay = 96 / 100, device = ''cpu'',
      multi_gpu = False, gpu_device = None, data_path = ''/content/data'',
      residual = False, conflicts = False, cb_batch_size = 32, momentum = False,
      gamma = 9 / 10, num_res_blocks = 1, num_caps = 32, optimizer = ''adam'',
      modelname = None, num_classes = None\<rparr>"

text \<open>The locals of \<open>run\<close> when the first phase starts (lines 88 to 92).\<close>

definition initial_vars :: run_vars where
  "initial_vars =
     \<lparr>train_loss = [], train_acc = [], test_loss = [], test_acc = [],
      running_loss = 0, correct = 0, total = 0, var_i = None, var_accuracy = None,
      best_test_acc = 0, best_epoch = 0, epochs_no_improve = 0\<rparr>"

section \<open>Contracts and examples\<close>

text \<open>
  A layer keeps the contract \<open>P\<close>, \<open>Q\<close> when on every input that satisfies \<open>P\<close>
  it returns a tensor that satisfies \<open>Q\<close>. The shape contract of a capsule layer
  (section 8 of the spec): on every input of shape \<open>[B, N, D]\<close> it returns a tensor of
  shape \<open>[B, N', D']\<close>.
\<close>

definition contract :: "('a \<Rightarrow> bool) \<Rightarrow> ('b \<Rightarrow> bool) \<Rightarrow> ('a, 'b) module \<Rightarrow> bool" where
  "contract P Q f = (\<forall>t. P t \<longrightarrow> (\<exists>t'. f t = Some t' \<and> Q t'))"

definition shape_contract :: "nat \<Rightarrow> nat \<Rightarrow> nat \<Rightarrow> nat \<Rightarrow> nat \<Rightarrow> (tensor3, tensor3) module \<Rightarrow> bool" where
  "shape_contract B N D N' D' f =
     (\<forall>t. has_shape3 B N D t \<longrightarrow> (\<exists>t'. f t = Some t' \<and> has_shape3 B N' D' t'))"

text \<open>The entrywise sum of two rank-3 tensors of the same shape.\<close>

definition add3 :: "tensor3 \<Rightarrow> tensor3 \<Rightarrow> tensor3" where
  "add3 x y = map2 (map2 (map2 (+))) x y"

text \<open>
  A routing layer with one input capsule and one output capsule of dimension one, the
  weight 1, one routing iteration and the epsilon \<open>1e-8\<close>.
\<close>

definition unit_layer :: routing_capsules where
  "unit_layer =
     \<lparr>in_dim = 1, in_caps = 1, out_caps = 1, out_dim = 1, routing_iterations = 1,
      W = [[[[1]]]], epsilon = 1 / 10 ^ 8\<rparr>"

text \<open>
  A routing layer of the given sizes in which every weight is \<open>w\<close>, with the epsilon
  \<open>1e-8\<close>.
\<close>

definition uniform_layer :: "nat \<Rightarrow> nat \<Rightarrow> nat \<Rightarrow> nat \<Rightarrow> nat \<Rightarrow> real \<Rightarrow> routing_capsules" where
  "uniform_layer Din N N' D' r w =
     \<lparr>in_dim = Din, in_caps = N, out_caps = N', out_dim = D', routing_iterations = r,
      W = replicate N' (replicate N (replicate D' (replicate Din w))),
      epsilon = 1 / 10 ^ 8\<rparr>"

text \<open>
  A small network for examples. Its layers are stand-ins that keep the shape contracts:
  the primary layer joins the channels, the block functions halve every entry, the
  second routing stage returns the capsules \<open>(3, 4)\<close> and \<open>(5, 0)\<close>, both of
  length 5, for every example, and the decoder is the logistic function.
\<close>

definition halve :: "(tensor3, tensor3) module" where
  "halve t = Some (map (map (map (\<lambda>v. v / 2))) t)"

definition example_network :: CapsuleNetwork where
  "example_network =
     \<lparr>img_shape = (1, 2, 2), net_num_classes = 2,
      conv1 = Some, primary = (\<lambda>t. Some (map concat t)), caps1 = Some,
      blocks = [\<lparr>skip = True, functions = [halve, halve]\<rparr>],
      caps2 = (\<lambda>t. Some (map (\<lambda>e. [[3, 4], [5, 0]]) t)),
      decoder = Sigmoid\<rparr>"

text \<open>
  A network whose capsule layers are routing layers with three iterations: four primary
  capsules of dimension 2 are routed to three capsules, through one residual block, and
  then to two class capsules of dimension 3. The convolution is a stand-in that
  returns its input, the primary layer takes the image rows as capsules, and the
  decoder is a stand-in that returns the logistic function of the first four entries
  of each row.
\<close>

definition routing_network :: CapsuleNetwork where
  "routing_network =
     \<lparr>img_shape = (1, 2, 2), net_num_classes = 2,
      conv1 = Some, primary = (\<lambda>t. Some (map (\<lambda>e. concat e @ concat e) t)),
      caps1 = RoutingCapsules_forward (uniform_layer 2 4 3 2 3 (1 / 2)),
      blocks = [\<lparr>skip = True,
                 functions = [RoutingCapsules_forward (uniform_layer 2 3 3 2 3 (1 / 3)),
                              RoutingCapsules_forward (uniform_layer 2 3 3 2 3 (1 / 4))]\<rparr>],
      caps2 = RoutingCapsules_forward (uniform_layer 2 3 2 3 3 (1 / 5)),
      decoder = (\<lambda>t. Sigmoid (map (take 4) t))\<rparr>"

section \<open>Properties\<close>

subsection \<open>Construction\<close>

lemma bind_ctor_simps:
  "bind_ctor (return_ctor a) f s = f a s"
  "bind_ctor (lift_ctor (Inl e)) f s = (Inl e, s)"
  "bind_ctor (lift_ctor (Inr a)) f s = f a s"
  by (simp_all add: bind_ctor_def return_ctor_def lift_ctor_def)

lemma str_nat_digit: "n < 10 \<Longrightarrow> str_nat n = [digit_char n]"
  by (simp add: str_nat.simps)

text \<open>
  C10. A namespace fresh from the parser has no \<open>modelname\<close>. With \<open>momentum\<close> set
  and \<open>residual\<close> not set, no branch of lines 80 to 85 assigns it, and constructing
  the trainer from any namespace that still lacks it raises \<open>AttributeError\<close> with the
  constructor state untouched: no layer constructor has run, so no model was built.
  In each of the other three flag combinations the name is assigned.
\<close>

theorem modelname_missing:
  assumes "modelname a = None"
  shows "(momentum a \<and> \<not> residual a \<longrightarrow>
            modelname (assign_modelname a) = None \<and>
            (\<forall>b. modelname b = modelname (assign_modelname a) \<longrightarrow>
                 CapsNetTrainer_init lib wrap shp b s = (Inl (AttributeError ''modelname''), s)))
       \<and> (\<not> residual a \<and> \<not> momentum a \<longrightarrow>
            modelname (assign_modelname a) = Some (''CapsNet_'' @ str_int (num_res_blocks a)))
       \<and> (residual a \<and> \<not> momentum a \<longrightarrow>
            modelname (assign_modelname a) = Some (''ResCapsNet_'' @ str_int (num_res_blocks a)))
       \<and> (residual a \<and> momentum a \<longrightarrow>
            modelname (assign_modelname a) = Some (''MoCapsNet_'' @ str_int (num_res_blocks a)))"
  using assms
  by (auto simp: assign_modelname_def CapsNetTrainer_init_def getattr_def bind_ctor_simps)

theorem modelname_missing_witness:
  "modelname (assign_modelname (default_args\<lparr>momentum := True\<rparr>)) = None \<and>
   CapsNetTrainer_init recording_library identity_wrappers (1, 28, 28)
      ((assign_modelname (default_args\<lparr>momentum := True\<rparr>))\<lparr>num_classes := Some 10\<rparr>) []
     = (Inl (AttributeError ''modelname''), []) \<and>
   modelname (assign_modelname default_args) = Some ''CapsNet_1''"
  using modelname_missing [of "default_args\<lparr>momentum := True\<rparr>" recording_library identity_wrappers "(1, 28, 28)" "[]"]
        modelname_missing [of "default_args" recording_library identity_wrappers "(1, 28, 28)" "[]"]
  by (simp add: default_args_def assign_modelname_def str_int_def str_nat_digit digit_char_def)


lemma routing_layers_recording:
  "routing_layers recording_library n a b c d e s =
     (Inr (replicate n (\<lambda>x. None)), s @ replicate n (RoutingCapsules_call a b c d e))"
proof (induction n arbitrary: s)
  case 0
  show ?case by (simp add: return_ctor_def)
next
  case (Suc n)
  have "RoutingCapsules recording_library a b c d e s
          = (Inr (\<lambda>x. None), s @ [RoutingCapsules_call a b c d e])"
    by (simp add: recording_library_def)
  then show ?case
    by (simp add: bind_ctor_def return_ctor_def Suc.IH replicate_app_Cons_same)
qed

lemma ResCapsBlock_init_recording:
  "ResCapsBlock_init recording_library a b c d e sk s =
     (Inr \<lparr>skip = sk, functions = [\<lambda>x. None, \<lambda>x. None]\<rparr>,
      s @ [RoutingCapsules_call a b c d e, RoutingCapsules_call a b c d e])"
proof -
  have "routing_layers recording_library 2 a b c d e s =
          (Inr [\<lambda>x. None, \<lambda>x. None],
           s @ [RoutingCapsules_call a b c d e, RoutingCapsules_call a b c d e])"
    unfolding routing_layers_recording by (simp add: numeral_2_eq_2)
  then show ?thesis
    by (simp add: ResCapsBlock_init_def bind_ctor_def return_ctor_def)
qed

lemma res_blocks_recording:
  "res_blocks recording_library n pd nr res s =
     (Inr (replicate n \<lparr>skip = res, functions = [\<lambda>x. None, \<lambda>x. None]\<rparr>),
      s @ concat (replicate n [RoutingCapsules_call pd 32 32 pd nr, RoutingCapsules_call pd 32 32 pd nr]))"
proof (induction n arbitrary: s)
  case 0
  show ?case by (simp add: return_ctor_def)
next
  case (Suc n)
  show ?case
    by (simp add: bind_ctor_def return_ctor_def Suc.IH ResCapsBlock_init_recording)
qed

text \<open>
  C9. Changing \<open>num_caps\<close> in the namespace changes nothing in the outcome of
  \<open>CapsuleNetwork.__init__\<close>, for every library and every state. The constructor
  calls it makes, observed with the recording library, pass the literal 32 as the
  capsule count between the first routing stage, the blocks and the second stage.
\<close>

theorem num_caps_never_read:
  "CapsuleNetwork_init lib (a\<lparr>num_caps := n\<rparr>) shp channels pd nc od k s
     = CapsuleNetwork_init lib a shp channels pd nc od k s
   \<and> (pd \<noteq> 0 \<longrightarrow>
        snd (CapsuleNetwork_init recording_library a shp channels pd nc od k []) =
          [Conv2d_call (int (fst shp)) channels k,
           PrimaryCapsules_call channels channels pd k,
           RoutingCapsules_call pd
             (py_int (real_of_int channels / real_of_int pd
                      * real_of_int (int (fst (snd shp)) - 2 * (k - 1))
                      * real_of_int (int (snd (snd shp)) - 2 * (k - 1)) / 4))
             32 pd (num_routing a)]
          @ concat (replicate (nat (num_res_blocks a))
              [RoutingCapsules_call pd 32 32 pd (num_routing a),
               RoutingCapsules_call pd 32 32 pd (num_routing a)])
          @ [RoutingCapsules_call pd 32 nc od (num_routing a),
             Linear_call (od * nc) 512, Linear_call 512 1024,
             Linear_call 1024 (int (prod_shape shp))])"
proof
  show "CapsuleNetwork_init lib (a\<lparr>num_caps := n\<rparr>) shp channels pd nc od k s
     = CapsuleNetwork_init lib a shp channels pd nc od k s"
    by (simp add: CapsuleNetwork_init_def)
next
  show "pd \<noteq> 0 \<longrightarrow>
        snd (CapsuleNetwork_init recording_library a shp channels pd nc od k []) =
          [Conv2d_call (int (fst shp)) channels k,
           PrimaryCapsules_call channels channels pd k,
           RoutingCapsules_call pd
             (py_int (real_of_int channels / real_of_int pd
                      * real_of_int (int (fst (snd shp)) - 2 * (k - 1))
                      * real_of_int (int (snd (snd shp)) - 2 * (k - 1)) / 4))
             32 pd (num_routing a)]
          @ concat (replicate (nat (num_res_blocks a))
              [RoutingCapsules_call pd 32 32 pd (num_routing a),
               RoutingCapsules_call pd 32 32 pd (num_routing a)])
          @ [RoutingCapsules_call pd 32 nc od (num_routing a),
             Linear_call (od * nc) 512, Linear_call 512 1024,
             Linear_call 1024 (int (prod_shape shp))]"
  proof
    assume pd: "pd \<noteq> 0"
    obtain c h w where shp: "shp = (c, h, w)" by (cases shp) auto
    have lib: "Conv2d recording_library = (\<lambda>a b c s. (Inr (\<lambda>x. None), s @ [Conv2d_call a b c]))"
      "PrimaryCapsules recording_library = (\<lambda>a b c d s. (Inr (\<lambda>x. None), s @ [PrimaryCapsules_call a b c d]))"
      "RoutingCapsules recording_library = (\<lambda>a b c d e s. (Inr (\<lambda>x. None), s @ [RoutingCapsules_call a b c d e]))"
      "Linear recording_library = (\<lambda>a b s. (Inr (\<lambda>x. None), s @ [Linear_call a b]))"
      by (simp_all add: recording_library_def)
    show "snd (CapsuleNetwork_init recording_library a shp channels pd nc od k []) =
          [Conv2d_call (int (fst shp)) channels k,
           PrimaryCapsules_call channels channels pd k,
           RoutingCapsules_call pd
             (py_int (real_of_int channels / real_of_int pd
                      * real_of_int (int (fst (snd shp)) - 2 * (k - 1))
                      * real_of_int (int (snd (snd shp)) - 2 * (k - 1)) / 4))
             32 pd (num_routing a)]
          @ concat (replicate (nat (num_res_blocks a))
              [RoutingCapsules_call pd 32 32 pd (num_routing a),
               RoutingCapsules_call pd 32 32 pd (num_routing a)])
          @ [RoutingCapsules_call pd 32 nc od (num_routing a),
             Linear_call (od * nc) 512, Linear_call 512 1024,
             Linear_call 1024 (int (prod_shape shp))]"
      using pd
      by (simp add: CapsuleNetwork_init_def lib bind_ctor_def return_ctor_def lift_ctor_def
          primary_caps_count_def shp res_blocks_recording)
  qed
qed

lemma py_int_of_int: "py_int (real_of_int z) = z"
  by (simp add: py_int_def)

theorem num_caps_never_read_witness:
  "CapsuleNetwork_init recording_library (default_args\<lparr>num_caps := 7\<rparr>) (1, 28, 28) 256 8 10 16 9 []
     = CapsuleNetwork_init recording_library default_args (1, 28, 28) 256 8 10 16 9 []
   \<and> snd (CapsuleNetwork_init recording_library default_args (1, 28, 28) 256 8 10 16 9 []) =
       [Conv2d_call 1 256 9, PrimaryCapsules_call 256 256 8 9,
        RoutingCapsules_call 8 1152 32 8 3,
        RoutingCapsules_call 8 32 32 8 3, RoutingCapsules_call 8 32 32 8 3,
        RoutingCapsules_call 8 32 10 16 3,
        Linear_call 160 512, Linear_call 512 1024, Linear_call 1024 784]"
proof -
  have "py_int (256 / 8 * 12 * 12 / 4) = 1152"
    using py_int_of_int [of 1152] by simp
  then show ?thesis
    using num_caps_never_read [where lib = recording_library and a = default_args and n = 7
          and shp = "(1, 28, 28)" and channels = 256 and pd = 8 and nc = 10 and od = 16
          and k = 9 and s = "[]"]
    by (simp add: default_args_def prod_shape_def)
qed

text \<open>
  C3, as amended. \<open>ResCapsBlock.__init__\<close> validates nothing: whenever the
  \<open>RoutingCapsules\<close> constructor accepts the arguments, the block is built with its
  two layers, whatever the relation between the input and output capsule shapes.
\<close>

theorem ResCapsBlock_init_validates_nothing:
  assumes "\<forall>s. \<exists>f s'. RoutingCapsules lib i n m d r s = (Inr f, s')"
  shows "\<exists>f1 f2 s'. ResCapsBlock_init lib i n m d r sk s
            = (Inr \<lparr>skip = sk, functions = [f1, f2]\<rparr>, s')"
proof -
  obtain f1 s1 where 1: "RoutingCapsules lib i n m d r s = (Inr f1, s1)"
    using assms by blast
  obtain f2 s2 where 2: "RoutingCapsules lib i n m d r s1 = (Inr f2, s2)"
    using assms by blast
  show ?thesis
    by (simp add: ResCapsBlock_init_def numeral_2_eq_2 bind_ctor_def return_ctor_def 1 2)
qed


theorem ResCapsBlock_init_validates_nothing_witness:
  "\<exists>f1 f2 s'. ResCapsBlock_init recording_library 8 32 10 16 3 True []
            = (Inr \<lparr>skip = True, functions = [f1, f2]\<rparr>, s')"
proof -
  have "\<forall>s. \<exists>f s'. RoutingCapsules recording_library 8 32 10 16 3 s = (Inr f, s')"
    by (simp add: recording_library_def)
  then show ?thesis
    by (rule ResCapsBlock_init_validates_nothing)
qed

text \<open>
  C3 as stated fails: a block with 32 input capsules of dimension 8 and 10 output
  capsules of dimension 16 is constructed without error.
\<close>

theorem mismatched_block_is_constructed:
  "map_sum id skip (fst (ResCapsBlock_init recording_library 8 32 10 16 3 True [])) = Inr True
   \<and> snd (ResCapsBlock_init recording_library 8 32 10 16 3 True [])
       = [RoutingCapsules_call 8 32 10 16 3, RoutingCapsules_call 8 32 10 16 3]"
  by (simp add: ResCapsBlock_init_recording)

lemma CapsuleNetwork_init_recording_succeeds:
  assumes "pd \<noteq> 0"
  shows "\<exists>n s'. CapsuleNetwork_init recording_library a shp channels pd nc od k s = (Inr n, s')"
proof -
  obtain c h w where shp: "shp = (c, h, w)" by (cases shp) auto
  have lib: "Conv2d recording_library = (\<lambda>a b c s. (Inr (\<lambda>x. None), s @ [Conv2d_call a b c]))"
    "PrimaryCapsules recording_library = (\<lambda>a b c d s. (Inr (\<lambda>x. None), s @ [PrimaryCapsules_call a b c d]))"
    "RoutingCapsules recording_library = (\<lambda>a b c d e s. (Inr (\<lambda>x. None), s @ [RoutingCapsules_call a b c d e]))"
    "Linear recording_library = (\<lambda>a b s. (Inr (\<lambda>x. None), s @ [Linear_call a b]))"
    by (simp_all add: recording_library_def)
  show ?thesis
    using assms
    by (simp add: CapsuleNetwork_init_def lib bind_ctor_def return_ctor_def lift_ctor_def
        primary_caps_count_def shp res_blocks_recording)
qed

text \<open>
  C8. Every trainer that \<open>CapsNetTrainer.__init__\<close> returns holds a criterion with
  \<open>lambda = 0.5\<close> and reconstruction scale \<open>5e-4\<close>, whose value is the margin loss
  plus \<open>5e-4\<close> times the reconstruction error.
\<close>

theorem trainer_criterion:
  assumes "CapsNetTrainer_init lib wrap shp a s = (Inr tr, s')"
  shows "loss_lambda (criterion tr) = 1 / 2
       \<and> recon_loss_scale (criterion tr) = 5 / 10 ^ 4
       \<and> CapsuleLoss_forward (criterion tr) inputs labels images reconstructions
           = margin_loss (1 / 2) inputs labels
               + 5 / 10 ^ 4 * reconstruction_MSE images reconstructions"
proof -
  have "criterion tr = CapsuleLoss_init (1 / 2) (5 / 10 ^ 4)"
    using assms
    by (auto simp: CapsNetTrainer_init_def bind_ctor_def return_ctor_def lift_ctor_def Let_def
        split: sum.splits prod.splits)
  then show ?thesis
    by (simp add: CapsuleLoss_init_def CapsuleLoss_forward_def)
qed

theorem trainer_criterion_witness:
  "\<exists>tr s'. CapsNetTrainer_init recording_library identity_wrappers (1, 28, 28)
              ((assign_modelname default_args)\<lparr>num_classes := Some 10\<rparr>) [] = (Inr tr, s')
     \<and> loss_lambda (criterion tr) = 1 / 2
     \<and> recon_loss_scale (criterion tr) = 5 / 10 ^ 4
     \<and> CapsuleLoss_forward (criterion tr) [[1, 0]] [[1, 0]] [[[[1]]]] [[[[0]]]]
           = margin_loss (1 / 2) [[1, 0]] [[1, 0]]
               + 5 / 10 ^ 4 * reconstruction_MSE [[[[1]]]] [[[[0]]]]"
proof -
  let ?a = "(assign_modelname default_args)\<lparr>num_classes := Some 10\<rparr>"
  obtain n s1 where n: "CapsuleNetwork_init recording_library ?a (1, 28, 28) 256 8 10 16 9 []
      = (Inr n, s1)"
    using CapsuleNetwork_init_recording_succeeds [of 8] by fastforce
  have "\<exists>tr s'. CapsNetTrainer_init recording_library identity_wrappers (1, 28, 28) ?a []
      = (Inr tr, s')"
    using n
    by (simp add: CapsNetTrainer_init_def bind_ctor_def return_ctor_def lift_ctor_def Let_def
        getattr_def assign_modelname_def default_args_def)
  then obtain tr s' where tr: "CapsNetTrainer_init recording_library identity_wrappers (1, 28, 28) ?a []
      = (Inr tr, s')" by blast
  show ?thesis
    using tr trainer_criterion [OF tr] by blast
qed

subsection \<open>The squash non-linearity\<close>

lemma those_map_Some:
  "(\<And>x. x \<in> set xs \<Longrightarrow> f x = Some (g x)) \<Longrightarrow> those (map f xs) = Some (map g xs)"
  by (induction xs) auto

lemma vector_norm_nonneg: "0 \<le> vector_norm v"
  by (auto simp: vector_norm_def intro!: sum_list_nonneg)

lemma sum_list_squares_scale:
  "sum_list (map (\<lambda>x. (c * x)\<^sup>2) v) = c\<^sup>2 * sum_list (map (\<lambda>x. x\<^sup>2) (v::real list))"
  by (induction v) (simp_all add: power_mult_distrib distrib_left)

lemma vector_norm_scale: "vector_norm (map (\<lambda>x. c * x) v) = \<bar>c\<bar> * vector_norm v"
  by (simp add: vector_norm_def comp_def sum_list_squares_scale real_sqrt_mult)

lemma vector_norm_zeros: "vector_norm (replicate d 0) = 0"
  by (simp add: vector_norm_def sum_list_replicate)

lemma squash_guarded:
  assumes "0 < eps"
  shows "squash eps s =
    Some (map (\<lambda>x. ((vector_norm s)\<^sup>2 / ((1 + (vector_norm s)\<^sup>2) * max (vector_norm s) eps)) * x) s)"
proof -
  let ?n = "vector_norm s"
  have d1: "1 + ?n\<^sup>2 \<noteq> 0"
    by (metis add_pos_nonneg less_numeral_extra(1) less_numeral_extra(3) zero_le_power2)
  have d2: "max ?n eps \<noteq> 0" using assms by (simp add: max_def) 
  have "those (map (\<lambda>x. do { u \<leftarrow> guarded_div x (max ?n eps); Some (?n\<^sup>2 / (1 + ?n\<^sup>2) * u) }) s)
      = Some (map (\<lambda>x. ?n\<^sup>2 / (1 + ?n\<^sup>2) * (x / max ?n eps)) s)"
    by (rule those_map_Some) (simp add: guarded_div_def d2)
  then show ?thesis
    using d1 by (simp add: squash_def Let_def guarded_div_def)
qed

text \<open>
  C7. With a positive epsilon both divisions of \<open>squash\<close> have a non-zero divisor, so
  it returns a vector for every input; the length of that vector is at least 0 and
  less than 1; and the zero vector of any dimension is mapped to itself.
\<close>

theorem squash_bounded:
  assumes "0 < eps"
  shows "(\<exists>v. squash eps s = Some v \<and> 0 \<le> vector_norm v \<and> vector_norm v < 1)
       \<and> squash eps (replicate d 0) = Some (replicate d 0)"
proof
  let ?n = "vector_norm s"
  let ?c = "?n\<^sup>2 / ((1 + ?n\<^sup>2) * max ?n eps)"
  let ?v = "map (\<lambda>x. ?c * x) s"
  have n0: "0 \<le> ?n" by (rule vector_norm_nonneg)
  have m: "0 < max ?n eps" using assms by (simp add: max_def)
  have c0: "0 \<le> ?c" using n0 m by simp
  have nv: "vector_norm ?v = ?c * ?n"
    by (simp only: vector_norm_scale abs_of_nonneg [OF c0])
  have "?n / max ?n eps \<le> 1" using m by simp
  moreover have q0: "0 \<le> ?n\<^sup>2 / (1 + ?n\<^sup>2)" by simp
  ultimately have "?n\<^sup>2 / (1 + ?n\<^sup>2) * (?n / max ?n eps) \<le> ?n\<^sup>2 / (1 + ?n\<^sup>2) * 1"
    by (rule mult_left_mono)
  moreover have "?c * ?n = ?n\<^sup>2 / (1 + ?n\<^sup>2) * (?n / max ?n eps)" by simp
  moreover have "?n\<^sup>2 / (1 + ?n\<^sup>2) < 1"
    by (smt (verit) divide_less_eq_1 zero_le_power2)
  ultimately have "vector_norm ?v < 1" using nv by linarith
  then show "\<exists>v. squash eps s = Some v \<and> 0 \<le> vector_norm v \<and> vector_norm v < 1"
    using squash_guarded [OF assms, of s] vector_norm_nonneg by blast
next
  show "squash eps (replicate d 0) = Some (replicate d 0)"
    by (simp add: squash_guarded [OF assms] vector_norm_zeros map_replicate_const)
qed

text \<open>
  Without the guard (epsilon 0) the zero vector divides by zero.
\<close>

lemma squash_unguarded_zero: "squash 0 [0, 0] = None"
  by (simp add: squash_def vector_norm_def guarded_div_def)

text \<open>
  The vector (3, 4) of length 5 is scaled to length 25/26.
\<close>

lemma squash_example: "squash (1 / 10 ^ 8) [3, 4] = Some [15 / 26, 10 / 13]"
proof -
  have "sqrt 25 = 5" using real_sqrt_abs [of 5] by simp
  then have "vector_norm [3, 4] = 5" by (simp add: vector_norm_def)
  then show ?thesis
    by (simp add: squash_guarded)
qed

theorem squash_bounded_witness:
  "squash (1 / 10 ^ 8) [3, 4] = Some [15 / 26, 10 / 13]
   \<and> 0 \<le> vector_norm [15 / 26, 10 / 13] \<and> vector_norm [15 / 26, 10 / 13] < 1
   \<and> squash (1 / 10 ^ 8) (replicate 2 0) = Some (replicate 2 0)"
  using squash_bounded [of "1 / 10 ^ 8" "[3, 4]" 2] squash_example by simp

subsection \<open>The loss history\<close>

lemma enumerate_layers_Some: "enumerate_layers n (Some k) = Some (if n = 0 then k else n - 1)"
  by (induction n) (simp_all add: enumerate_layers_def)

lemma batch_loop_result:
  assumes "\<forall>b \<in> set bs. 0 < n_examples b"
  shows "\<exists>v'. batch_loop cb n_layers idx bs v = Inr v'
           \<and> running_loss v' = running_loss v + sum_list (map loss_item bs)
           \<and> train_loss v' = train_loss v \<and> test_loss v' = test_loss v
           \<and> (bs \<noteq> [] \<longrightarrow> var_accuracy v' \<noteq> None)
           \<and> (bs \<noteq> [] \<and> (0 < idx \<or> 2 \<le> length bs) \<longrightarrow> var_i v' = Some (idx + length bs - 1))"
  using assms
proof (induction bs arbitrary: idx v)
  case Nil
  then show ?case by simp
next
  case (Cons b bs)
  let ?v5 = "v\<lparr>var_i := Some idx, running_loss := running_loss v + loss_item b,
      total := total v + n_examples b, correct := correct v + n_correct b,
      var_accuracy := Some (real (correct v + n_correct b) / real (total v + n_examples b))\<rparr>"
  let ?v6 = "if idx = 0 \<and> cb then ?v5\<lparr>var_i := enumerate_layers n_layers (var_i ?v5)\<rparr> else ?v5"
  have pos: "0 < n_examples b" using Cons.prems by simp
  have step: "batch_loop cb n_layers idx (b # bs) v = batch_loop cb n_layers (Suc idx) bs ?v6"
    using pos by (simp add: Let_def)
  from Cons.prems have "\<forall>b \<in> set bs. 0 < n_examples b" by simp
  from Cons.IH [OF this, of "Suc idx" ?v6]
  obtain v' where v': "batch_loop cb n_layers (Suc idx) bs ?v6 = Inr v'"
    "running_loss v' = running_loss ?v6 + sum_list (map loss_item bs)"
    "train_loss v' = train_loss ?v6" "test_loss v' = test_loss ?v6"
    "bs \<noteq> [] \<longrightarrow> var_accuracy v' \<noteq> None"
    "bs \<noteq> [] \<longrightarrow> var_i v' = Some (Suc idx + length bs - 1)"
    by auto
  have nil: "bs = [] \<Longrightarrow> v' = ?v6" using v'(1) by simp
  show ?case
  proof (intro exI conjI)
    show "batch_loop cb n_layers idx (b # bs) v = Inr v'" using step v'(1) by simp
    show "running_loss v' = running_loss v + sum_list (map loss_item (b # bs))"
      using v'(2) by simp
    show "train_loss v' = train_loss v" using v'(3) by simp
    show "test_loss v' = test_loss v" using v'(4) by simp
    show "b # bs \<noteq> [] \<longrightarrow> var_accuracy v' \<noteq> None"
      using v'(5) nil by (cases "bs = []") auto
    show "b # bs \<noteq> [] \<and> (0 < idx \<or> 2 \<le> length (b # bs)) \<longrightarrow>
            var_i v' = Some (idx + length (b # bs) - 1)"
      using v'(6) nil by (cases "bs = []") auto
  qed
qed

text \<open>
  C2, as amended. In a phase with at least two batches, none of them empty, the batch
  loop ends with \<open>i\<close> bound to the index of the last batch, and the value appended to
  the loss history of the phase is the sum of the batch losses divided by \<open>i + i\<close>.
\<close>

theorem history_loss_quotient:
  assumes "2 \<le> length batches" and "\<forall>b \<in> set batches. 0 < n_examples b"
  shows "\<exists>v' stop. run_phase ph cb n_layers epoch batches v = Inr (v', stop)
           \<and> var_i v' = Some (length batches - 1)
           \<and> (ph = Train \<longrightarrow> train_loss v' = train_loss v @
                 [sum_list (map loss_item batches)
                    / real ((length batches - 1) + (length batches - 1))])
           \<and> (ph = Test \<longrightarrow> test_loss v' = test_loss v @
                 [sum_list (map loss_item batches)
                    / real ((length batches - 1) + (length batches - 1))])"
proof -
  let ?v0 = "v\<lparr>running_loss := 0, correct := 0, total := 0\<rparr>"
  have ne: "batches \<noteq> []" using assms(1) by auto
  obtain v1 where v1: "batch_loop cb n_layers 0 batches ?v0 = Inr v1"
    "running_loss v1 = sum_list (map loss_item batches)"
    "train_loss v1 = train_loss v" "test_loss v1 = test_loss v"
    "var_accuracy v1 \<noteq> None" "var_i v1 = Some (length batches - 1)"
    using batch_loop_result [OF assms(2), of cb n_layers 0 ?v0] assms(1) ne by auto
  obtain acc where acc: "var_accuracy v1 = Some acc" using v1(5) by auto
  have pos: "(length batches - 1) + (length batches - 1) \<noteq> 0" using assms(1) by simp
  have q: "loss_over_i_plus_i v1 = Inr (sum_list (map loss_item batches)
      / real ((length batches - 1) + (length batches - 1)))"
    using pos by (simp add: loss_over_i_plus_i_def v1(2) v1(6))
  show ?thesis
  proof (cases ph)
    case Train
    then show ?thesis
      by (auto simp: run_phase_def v1 q acc read_accuracy_def)
  next
    case Test
    then show ?thesis
      by (auto simp: run_phase_def v1 q acc read_accuracy_def Let_def)
  qed
qed

theorem history_loss_quotient_witness:
  "map_sum id (\<lambda>p. (var_i (fst p), train_loss (fst p)))
     (run_phase Train False 1 1
       [\<lparr>loss_item = 3, n_correct = 1, n_examples = 2\<rparr>,
        \<lparr>loss_item = 2, n_correct = 2, n_examples = 2\<rparr>,
        \<lparr>loss_item = 1, n_correct = 2, n_examples = 2\<rparr>] initial_vars)
   = Inr (Some 2, [6 / (2 + 2)])"
  using history_loss_quotient [of
       "[\<lparr>loss_item = 3, n_correct = 1, n_examples = 2\<rparr>,
        \<lparr>loss_item = 2, n_correct = 2, n_examples = 2\<rparr>,
        \<lparr>loss_item = 1, n_correct = 2, n_examples = 2\<rparr>]" Train False 1 1 initial_vars]
  by (auto simp: initial_vars_def)

text \<open>
  C2 as stated fails for a phase of one batch when the bundles are measured: with
  three block outputs the inner loop leaves \<open>i = 2\<close>, and the loss 4 is recorded as
  \<open>4 / (2 + 2)\<close>, while the index of the last batch is 0.
\<close>

theorem single_batch_with_bundle_measurement:
  "map_sum id (\<lambda>p. (train_loss (fst p), var_i (fst p)))
     (run_phase Train True 3 1 [\<lparr>loss_item = 4, n_correct = 1, n_examples = 1\<rparr>] initial_vars)
   = Inr ([4 / (2 + 2)], Some 2)"
  by (simp add: run_phase_def initial_vars_def Let_def enumerate_layers_Some
      loss_over_i_plus_i_def read_accuracy_def)

text \<open>
  A phase of one batch without bundle measurement divides by \<open>0 + 0\<close>: the run
  raises and nothing is recorded.
\<close>

lemma single_batch_divides_by_zero:
  "run_phase ph False n_layers epoch [\<lparr>loss_item = l, n_correct = c, n_examples = Suc m\<rparr>] v
     = Inl ZeroDivisionError"
  by (simp add: run_phase_def Let_def loss_over_i_plus_i_def)

subsection \<open>The residual block\<close>

lemma those_map2_Some:
  assumes "\<And>x y. (x, y) \<in> set (zip xs ys) \<Longrightarrow> f x y = Some (g x y)"
  shows "those (map2 f xs ys) = Some (map2 g xs ys)"
proof -
  have "those (map (\<lambda>(x, y). f x y) (zip xs ys)) = Some (map (\<lambda>(x, y). g x y) (zip xs ys))"
    by (rule those_map_Some) (use assms in auto)
  then show ?thesis by simp
qed

lemma broadcast2_same:
  assumes "length xs = length ys"
    and "\<And>x y. (x, y) \<in> set (zip xs ys) \<Longrightarrow> f x y = Some (g x y)"
  shows "broadcast2 f xs ys = Some (map2 g xs ys)"
  using assms by (simp add: broadcast2_def those_map2_Some)

lemma has_shape2_row: "has_shape2 K D t \<Longrightarrow> r \<in> set t \<Longrightarrow> length r = D"
  by (simp add: has_shape2_def list_all_iff)

lemma has_shape3_row: "has_shape3 B K D t \<Longrightarrow> r \<in> set t \<Longrightarrow> has_shape2 K D r"
  by (simp add: has_shape3_def list_all_iff)

lemma tadd2_same_shape:
  assumes "has_shape2 K D x" and "has_shape2 K D y"
  shows "broadcast2 (broadcast2 (\<lambda>a b. Some (a + b))) x y = Some (map2 (map2 (+)) x y)"
proof (rule broadcast2_same)
  show "length x = length y" using assms by (simp add: has_shape2_def)
next
  fix u v assume "(u, v) \<in> set (zip x y)"
  then have "u \<in> set x" "v \<in> set y" by (auto dest: set_zip_leftD set_zip_rightD)
  then have "length u = length v" using assms by (simp add: has_shape2_row)
  then show "broadcast2 (\<lambda>a b. Some (a + b)) u v = Some (map2 (+) u v)"
    by (rule broadcast2_same) simp
qed

lemma tadd3_same_shape:
  assumes "has_shape3 B K D x" and "has_shape3 B K D y"
  shows "tadd3 x y = Some (add3 x y)"
  unfolding tadd3_def add3_def
proof (rule broadcast2_same)
  show "length x = length y" using assms by (simp add: has_shape3_def)
next
  fix u v assume "(u, v) \<in> set (zip x y)"
  then have "u \<in> set x" "v \<in> set y" by (auto dest: set_zip_leftD set_zip_rightD)
  then have "has_shape2 K D u" "has_shape2 K D v" using assms by (auto dest: has_shape3_row)
  then show "broadcast2 (broadcast2 (\<lambda>a b. Some (a + b))) u v = Some (map2 (map2 (+)) u v)"
    by (rule tadd2_same_shape)
qed

lemma has_shape2_map2:
  assumes "has_shape2 K D u" and "has_shape2 K D v"
  shows "has_shape2 K D (map2 (map2 f) u v)"
proof -
  have "\<And>a b. (a, b) \<in> set (zip u v) \<Longrightarrow> length (map2 f a b) = D"
  proof -
    fix a b assume "(a, b) \<in> set (zip u v)"
    then have "a \<in> set u" "b \<in> set v" by (auto dest: set_zip_leftD set_zip_rightD)
    then have "length a = D" "length b = D" using assms by (auto dest: has_shape2_row)
    then show "length (map2 f a b) = D" by simp
  qed
  moreover have "length u = K" "length v = K" using assms by (simp_all add: has_shape2_def)
  ultimately show ?thesis
    by (auto simp: has_shape2_def list_all_iff)
qed

lemma add3_shape:
  assumes "has_shape3 B K D x" and "has_shape3 B K D y"
  shows "has_shape3 B K D (add3 x y)"
proof -
  have "\<And>u v. (u, v) \<in> set (zip x y) \<Longrightarrow> has_shape2 K D (map2 (map2 (+)) u v)"
    using assms by (auto intro!: has_shape2_map2 dest: set_zip_leftD set_zip_rightD has_shape3_row)
  then show ?thesis
    using assms by (auto simp: has_shape3_def add3_def list_all_iff)
qed

lemma bind_apply_functions_Nil: "Option.bind m (apply_functions sk []) = m"
  by (cases m) simp_all

text \<open>
  C1, as amended. With \<open>skip\<close> the block adds a shortcut around each of its two layers:
  for an input \<open>x\<close> whose shape both layers keep, it returns \<open>x1 + f2(x1)\<close> with
  \<open>x1 = x + f1(x)\<close>. Without \<open>skip\<close> it returns \<open>f2(f1(x))\<close>, and raises where a
  layer raises.
\<close>

theorem ResCapsBlock_forward_two_layers:
  "(has_shape3 B K D x \<and> f1 x = Some y1 \<and> has_shape3 B K D y1
      \<and> f2 (add3 x y1) = Some y2 \<and> has_shape3 B K D y2 \<longrightarrow>
      ResCapsBlock_forward \<lparr>skip = True, functions = [f1, f2]\<rparr> x
        = Some (add3 (add3 x y1) y2))
   \<and> ResCapsBlock_forward \<lparr>skip = False, functions = [f1, f2]\<rparr> x = Option.bind (f1 x) f2"
proof (intro conjI impI)
  assume a: "has_shape3 B K D x \<and> f1 x = Some y1 \<and> has_shape3 B K D y1
      \<and> f2 (add3 x y1) = Some y2 \<and> has_shape3 B K D y2"
  then have 1: "tadd3 x y1 = Some (add3 x y1)" using tadd3_same_shape by blast
  have "has_shape3 B K D (add3 x y1)" using a add3_shape by blast
  then have 2: "tadd3 (add3 x y1) y2 = Some (add3 (add3 x y1) y2)"
    using a tadd3_same_shape by blast
  show "ResCapsBlock_forward \<lparr>skip = True, functions = [f1, f2]\<rparr> x
        = Some (add3 (add3 x y1) y2)"
    using a by (simp add: ResCapsBlock_forward_def 1 2)
next
  show "ResCapsBlock_forward \<lparr>skip = False, functions = [f1, f2]\<rparr> x = Option.bind (f1 x) f2"
    by (cases "f1 x") (simp_all add: ResCapsBlock_forward_def bind_apply_functions_Nil)
qed

lemma vector_norm_single: "vector_norm [a] = \<bar>a\<bar>"
  by (simp add: vector_norm_def)

text \<open>
  The unit routing layer squashes its one entry.
\<close>

lemma unit_layer_forward:
  assumes "1 / 10 ^ 8 \<le> a"
  shows "RoutingCapsules_forward unit_layer [[[a]]] = Some [[[a\<^sup>2 / (1 + a\<^sup>2)]]]"
proof -
  have a: "0 < a" using assms by (smt (verit) divide_pos_pos zero_less_power)
  have u: "u_hat unit_layer [[a]] = [[[a]]]"
    by (simp add: u_hat_def unit_layer_def matvec_def dot_def)
  have w: "weighted_sum unit_layer (map softmax [[0]]) [[[a]]] 0 = [a]"
    by (simp add: weighted_sum_def unit_layer_def softmax_def)
  have m: "max a (1 / 10 ^ 8) = a" using assms by (simp add: max_def)
  have s: "squash (1 / 10 ^ 8) [a] = Some [a\<^sup>2 / (1 + a\<^sup>2)]"
    using a m by (simp add: squash_guarded vector_norm_single power2_eq_square)
  have "route_output unit_layer [[[a]]] [[0]] = Some [[a\<^sup>2 / (1 + a\<^sup>2)]]"
    using w s by (simp add: route_output_def unit_layer_def)
  then have "route_example unit_layer [[a]] = Some [[a\<^sup>2 / (1 + a\<^sup>2)]]"
    using u by (simp add: route_example_def unit_layer_def has_shape4_def has_shape3_def
        has_shape2_def)
  then show ?thesis
    by (simp add: RoutingCapsules_forward_def)
qed

lemma unit_layer_values:
  "RoutingCapsules_forward unit_layer [[[1]]] = Some [[[1 / 2]]]"
  "RoutingCapsules_forward unit_layer [[[1 / 2]]] = Some [[[1 / 5]]]"
  "RoutingCapsules_forward unit_layer [[[3 / 2]]] = Some [[[9 / 13]]]"
  using unit_layer_forward [of 1] unit_layer_forward [of "1 / 2"] unit_layer_forward [of "3 / 2"]
  by (simp_all add: power2_eq_square)

lemma tadd3_single: "tadd3 [[[a]]] [[[b]]] = Some [[[a + b]]]"
  by (simp add: tadd3_def broadcast2_def)

theorem ResCapsBlock_forward_two_layers_witness:
  "ResCapsBlock_forward
     \<lparr>skip = True, functions = [RoutingCapsules_forward unit_layer, RoutingCapsules_forward unit_layer]\<rparr>
     [[[1]]] = Some (add3 (add3 [[[1]]] [[[1 / 2]]]) [[[9 / 13]]])
   \<and> ResCapsBlock_forward
     \<lparr>skip = False, functions = [RoutingCapsules_forward unit_layer, RoutingCapsules_forward unit_layer]\<rparr>
     [[[1]]] = Some [[[1 / 5]]]"
  using ResCapsBlock_forward_two_layers [of 1 1 1 "[[[1]]]" "RoutingCapsules_forward unit_layer"
      "[[[1 / 2]]]" "RoutingCapsules_forward unit_layer" "[[[9 / 13]]]"]
  by (simp add: unit_layer_values has_shape3_def has_shape2_def add3_def)

text \<open>
  C1 as stated fails with \<open>skip\<close>: for two copies of the unit routing layer and the
  input 1, the block returns \<open>57/26\<close>, while \<open>x + f2(f1(x))\<close> is \<open>6/5\<close>.
\<close>

theorem two_shortcuts_not_one:
  "ResCapsBlock_forward
     \<lparr>skip = True, functions = [RoutingCapsules_forward unit_layer, RoutingCapsules_forward unit_layer]\<rparr>
     [[[1]]] = Some [[[57 / 26]]]
   \<and> Option.bind
       (Option.bind (RoutingCapsules_forward unit_layer [[[1]]]) (RoutingCapsules_forward unit_layer))
       (tadd3 [[[1]]]) = Some [[[6 / 5]]]"
  by (simp add: ResCapsBlock_forward_def unit_layer_values tadd3_single)

subsection \<open>The index of the longest capsule\<close>

lemma argmax_from_scan:
  assumes "length pre = i" and "bi < i" and "pre ! bi = best"
    and "\<forall>k<i. pre ! k \<le> best" and "\<forall>k<bi. pre ! k < best"
  shows "argmax_from best bi i xs < length (pre @ xs)
       \<and> (\<forall>k<length (pre @ xs). (pre @ xs) ! k \<le> (pre @ xs) ! argmax_from best bi i xs)
       \<and> (\<forall>k<argmax_from best bi i xs. (pre @ xs) ! k < (pre @ xs) ! argmax_from best bi i xs)"
  using assms
proof (induction xs arbitrary: best bi i pre)
  case Nil
  then show ?case by simp
next
  case (Cons x xs)
  show ?case
  proof (cases "best < x")
    case True
    have "argmax_from x i (Suc i) xs < length ((pre @ [x]) @ xs)
       \<and> (\<forall>k<length ((pre @ [x]) @ xs). ((pre @ [x]) @ xs) ! k \<le> ((pre @ [x]) @ xs) ! argmax_from x i (Suc i) xs)
       \<and> (\<forall>k<argmax_from x i (Suc i) xs. ((pre @ [x]) @ xs) ! k < ((pre @ [x]) @ xs) ! argmax_from x i (Suc i) xs)"
    proof (rule Cons.IH)
      show "length (pre @ [x]) = Suc i" using Cons.prems by simp
      show "i < Suc i" by simp
      show "(pre @ [x]) ! i = x" using Cons.prems by (simp add: nth_append)
      show "\<forall>k<Suc i. (pre @ [x]) ! k \<le> x"
        using Cons.prems True by (auto simp: nth_append less_Suc_eq intro: less_imp_le order_trans)
      show "\<forall>k<i. (pre @ [x]) ! k < x"
        using Cons.prems True by (auto simp: nth_append intro: le_less_trans)
    qed
    then show ?thesis using True by simp
  next
    case False
    have "argmax_from best bi (Suc i) xs < length ((pre @ [x]) @ xs)
       \<and> (\<forall>k<length ((pre @ [x]) @ xs). ((pre @ [x]) @ xs) ! k \<le> ((pre @ [x]) @ xs) ! argmax_from best bi (Suc i) xs)
       \<and> (\<forall>k<argmax_from best bi (Suc i) xs. ((pre @ [x]) @ xs) ! k < ((pre @ [x]) @ xs) ! argmax_from best bi (Suc i) xs)"
    proof (rule Cons.IH)
      show "length (pre @ [x]) = Suc i" using Cons.prems by simp
      show "bi < Suc i" using Cons.prems by simp
      show "(pre @ [x]) ! bi = best" using Cons.prems by (simp add: nth_append)
      show "\<forall>k<Suc i. (pre @ [x]) ! k \<le> best"
        using Cons.prems False by (auto simp: nth_append less_Suc_eq)
      show "\<forall>k<bi. (pre @ [x]) ! k < best"
        using Cons.prems by (auto simp: nth_append)
    qed
    then show ?thesis using False by simp
  qed
qed

lemma argmax_first_maximum:
  assumes "xs \<noteq> []"
  shows "\<exists>j. argmax xs = Some j \<and> j < length xs
           \<and> (\<forall>k<length xs. xs ! k \<le> xs ! j) \<and> (\<forall>k<j. xs ! k < xs ! j)"
proof -
  obtain x r where xs: "xs = x # r" using assms by (cases xs) auto
  have "argmax_from x 0 1 r < length ([x] @ r)
       \<and> (\<forall>k<length ([x] @ r). ([x] @ r) ! k \<le> ([x] @ r) ! argmax_from x 0 1 r)
       \<and> (\<forall>k<argmax_from x 0 1 r. ([x] @ r) ! k < ([x] @ r) ! argmax_from x 0 1 r)"
    by (rule argmax_from_scan) simp_all
  then show ?thesis by (simp add: xs argmax_def)
qed

lemma argmax_example: "argmax [1, 3, 2, 3] = Some 1"
  by (simp add: argmax_def)

subsection \<open>Regrouping the entries of a tensor\<close>

lemma concat_map_concat: "concat (map concat t) = concat (concat t)"
  by (induction t) simp_all

lemma pieces_concat:
  assumes "\<And>r. r \<in> set rows \<Longrightarrow> length r = k"
  shows "pieces (length rows) k (concat rows) = rows"
  using assms
proof (induction rows)
  case Nil
  show ?case by (simp add: pieces_def)
next
  case (Cons r rows)
  have r: "length r = k" using Cons.prems by simp
  have "pieces (length rows) k (concat rows) = rows" using Cons by simp
  then have "map (\<lambda>i. take k (drop (i * k) (concat rows))) [0..<length rows] = rows"
    by (simp add: pieces_def)
  moreover have "\<And>i. drop (Suc i * k) (r @ concat rows) = drop (i * k) (concat rows)"
    using r by simp
  ultimately show ?case
    using r by (simp add: pieces_def map_upt_Suc del: upt_Suc)
qed

lemma length_concat_const:
  assumes "\<And>r. r \<in> set rows \<Longrightarrow> length r = k"
  shows "length (concat rows) = length rows * k"
  using assms by (induction rows) simp_all

lemma length_pieces: "length (pieces n k xs) = n"
  by (simp add: pieces_def)

lemma length_piece:
  assumes "n * k \<le> length xs" and "p \<in> set (pieces n k xs)"
  shows "length p = k"
proof -
  obtain i where i: "i < n" "p = take k (drop (i * k) xs)"
    using assms(2) by (auto simp: pieces_def)
  have "Suc i * k \<le> n * k" using i(1) by (simp add: Suc_leI mult_le_mono1 del: mult_Suc)
  then have "i * k + k \<le> length xs" using assms(1) by simp
  then show ?thesis using i(2) by simp
qed

lemma view_rows_shape3:
  assumes "has_shape3 B K D t" and "0 < B"
  shows "view_rows B t = Some (map concat t)"
proof -
  have rows: "\<And>r. r \<in> set (map concat t) \<Longrightarrow> length r = K * D"
  proof -
    fix r assume "r \<in> set (map concat t)"
    then obtain m where m: "m \<in> set t" "r = concat m" by auto
    then have "has_shape2 K D m" using assms(1) by (simp add: has_shape3_def list_all_iff)
    then have "length m = K" "\<And>c. c \<in> set m \<Longrightarrow> length c = D"
      by (simp_all add: has_shape2_def list_all_iff)
    then show "length r = K * D" using m(2) by (simp add: length_concat_const)
  qed
  have len: "length (concat (concat t)) = B * (K * D)"
    using length_concat_const [of "map concat t" "K * D"] rows assms(1)
    by (simp add: concat_map_concat has_shape3_def)
  have "pieces (length (map concat t)) (K * D) (concat (map concat t)) = map concat t"
    by (rule pieces_concat) (rule rows)
  then have "pieces B (K * D) (concat (concat t)) = map concat t"
    using assms(1) by (simp add: concat_map_concat has_shape3_def)
  then show ?thesis
    using assms(2) len by (simp add: view_rows_def Let_def)
qed

lemma view_images_shape:
  assumes "has_shape2 B (c * h * w) r" and "0 < c * h * w"
  shows "\<exists>r'. view_images (c, h, w) r = Some r' \<and> has_shape4 B c h w r'"
proof -
  let ?P = "c * h * w"
  let ?flat = "concat r"
  have len: "length ?flat = B * ?P"
    using assms(1) length_concat_const [of r ?P] by (simp add: has_shape2_def list_all_iff)
  let ?imgs = "pieces B ?P ?flat"
  let ?r' = "map (\<lambda>img. map (pieces h w) (pieces c (h * w) img)) ?imgs"
  have v: "view_images (c, h, w) r = Some ?r'"
    using assms(2) len by (simp add: view_images_def Let_def)
  have img: "\<And>img. img \<in> set ?imgs \<Longrightarrow> length img = ?P"
    by (rule length_piece [of B ?P ?flat]) (simp_all add: len)
  have "\<And>img. img \<in> set ?imgs \<Longrightarrow> has_shape3 c h w (map (pieces h w) (pieces c (h * w) img))"
  proof -
    fix img assume "img \<in> set ?imgs"
    then have l: "length img = c * (h * w)" using img by (simp add: mult.assoc)
    have "\<And>ch. ch \<in> set (pieces c (h * w) img) \<Longrightarrow> has_shape2 h w (pieces h w ch)"
    proof -
      fix ch assume "ch \<in> set (pieces c (h * w) img)"
      then have "length ch = h * w" by (rule length_piece [rotated]) (simp add: l)
      then have "\<And>row. row \<in> set (pieces h w ch) \<Longrightarrow> length row = w"
        by (rule_tac length_piece [of h w ch]) simp_all
      then show "has_shape2 h w (pieces h w ch)"
        by (simp add: has_shape2_def list_all_iff length_pieces)
    qed
    then show "has_shape3 c h w (map (pieces h w) (pieces c (h * w) img))"
      by (simp add: has_shape3_def list_all_iff length_pieces)
  qed
  then have "has_shape4 B c h w ?r'"
    by (simp add: has_shape4_def list_all_iff length_pieces)
  then show ?thesis using v by blast
qed

subsection \<open>Multiplying by the selected rows\<close>

lemma mask_capsule:
  "broadcast2 (\<lambda>a b. Some (a * b)) cap [m] = Some (map (\<lambda>a. a * m) cap)"
proof (cases "length cap = 1")
  case True
  then obtain a where "cap = [a]" by (cases cap) auto
  then show ?thesis by (simp add: broadcast2_def)
next
  case False
  have "those (map (\<lambda>x. Some (x * m)) cap) = Some (map (\<lambda>a. a * m) cap)"
    by (rule those_map_Some) simp
  then show ?thesis using False by (simp add: broadcast2_def)
qed

lemma mask_example:
  assumes "length caps = length sel"
  shows "broadcast2 (broadcast2 (\<lambda>a b. Some (a * b))) caps (map (\<lambda>v. [v]) sel)
           = Some (map2 (\<lambda>cap m. map (\<lambda>a. a * m) cap) caps sel)"
proof -
  have "broadcast2 (broadcast2 (\<lambda>a b. Some (a * b))) caps (map (\<lambda>v. [v]) sel)
      = Some (map2 (\<lambda>cap s. map (\<lambda>a. a * hd s) cap) caps (map (\<lambda>v. [v]) sel))"
  proof (rule broadcast2_same)
    show "length caps = length (map (\<lambda>v. [v]) sel)" using assms by simp
  next
    fix cap s assume "(cap, s) \<in> set (zip caps (map (\<lambda>v. [v]) sel))"
    then have "s \<in> set (map (\<lambda>v. [v]) sel)" by (rule set_zip_rightD)
    then obtain m where "s = [m]" by auto
    then show "broadcast2 (\<lambda>a b. Some (a * b)) cap s = Some (map (\<lambda>a. a * hd s) cap)"
      by (simp add: mask_capsule)
  qed
  moreover have "map2 (\<lambda>cap s. map (\<lambda>a. a * hd s) cap) caps (map (\<lambda>v. [v]) sel)
      = map2 (\<lambda>cap m. map (\<lambda>a. a * m) cap) caps sel"
    by (simp add: zip_map2 comp_def case_prod_unfold)
  ultimately show ?thesis by simp
qed

lemma mask_batch:
  assumes "length out = length y"
    and "\<And>caps sel. (caps, sel) \<in> set (zip out y) \<Longrightarrow> length caps = length sel"
  shows "tmul3 out (unsqueeze2 y)
           = Some (map2 (\<lambda>caps sel. map2 (\<lambda>cap m. map (\<lambda>a. a * m) cap) caps sel) out y)"
proof -
  have "tmul3 out (unsqueeze2 y)
      = Some (map2 (\<lambda>caps s. map2 (\<lambda>cap m. map (\<lambda>a. a * m) cap) caps (map hd s)) out (unsqueeze2 y))"
    unfolding tmul3_def
  proof (rule broadcast2_same)
    show "length out = length (unsqueeze2 y)" using assms(1) by (simp add: unsqueeze2_def)
  next
    fix caps s assume "(caps, s) \<in> set (zip out (unsqueeze2 y))"
    then obtain sel where sel: "(caps, sel) \<in> set (zip out y)" "s = map (\<lambda>v. [v]) sel"
      by (auto simp: unsqueeze2_def zip_map2)
    have "map hd s = sel" using sel(2) by (simp add: comp_def)
    then show "broadcast2 (broadcast2 (\<lambda>a b. Some (a * b))) caps s
        = Some (map2 (\<lambda>cap m. map (\<lambda>a. a * m) cap) caps (map hd s))"
      using mask_example [OF assms(2) [OF sel(1)]] sel(2) by simp
  qed
  moreover have "map2 (\<lambda>caps s. map2 (\<lambda>cap m. map (\<lambda>a. a * m) cap) caps (map hd s)) out (unsqueeze2 y)
      = map2 (\<lambda>caps sel. map2 (\<lambda>cap m. map (\<lambda>a. a * m) cap) caps sel) out y"
    by (simp add: unsqueeze2_def zip_map2 comp_def case_prod_unfold)
  ultimately show ?thesis by simp
qed

lemma map2_upt:
  assumes "length xs = n"
  shows "map2 f xs (map g [0..<n]) = map (\<lambda>k. f (xs ! k) (g k)) [0..<n]"
  using assms by (intro nth_equalityI) simp_all

lemma masked_capsules:
  assumes "has_shape2 K D (caps :: real list list)" and "j < K"
  shows "concat (map2 (\<lambda>cap m. map (\<lambda>a. a * m) cap) caps
                   (map (\<lambda>k. if j = k then 1 else 0) [0..<K]))
       = concat (map (\<lambda>k. if k = j then caps ! k else replicate D 0) [0..<K])"
proof -
  have len: "length caps = K" using assms(1) by (simp add: has_shape2_def)
  have "\<And>k. k < K \<Longrightarrow> map (\<lambda>a. a * (if j = k then 1 else 0)) (caps ! k)
         = (if k = j then caps ! k else replicate D 0)"
  proof -
    fix k assume "k < K"
    then have "length (caps ! k) = D"
      using assms(1) len by (simp add: has_shape2_def list_all_length)
    then show "map (\<lambda>a. a * (if j = k then 1 else 0)) (caps ! k)
         = (if k = j then caps ! k else replicate D 0)"
      by (auto simp: map_replicate_const)
  qed
  then have eq: "map (\<lambda>k. map (\<lambda>a. a * (if j = k then 1 else 0)) (caps ! k)) [0..<K]
      = map (\<lambda>k. if k = j then caps ! k else replicate D 0) [0..<K]"
    by (intro map_cong) simp_all
  have "map2 (\<lambda>cap m. map (\<lambda>a. a * m) cap) caps (map (\<lambda>k. if j = k then 1 else 0) [0..<K])
      = map (\<lambda>k. map (\<lambda>a. a * (if j = k then 1 else 0)) (caps ! k)) [0..<K]"
    by (rule map2_upt [OF len])
  then show ?thesis by (simp only: eq)
qed

subsection \<open>The input of the decoder\<close>

lemma has_shape3_nth:
  assumes "has_shape3 B K D t" and "b < B"
  shows "has_shape2 K D (t ! b)"
  using assms by (simp add: has_shape3_def list_all_length)

lemma has_shape2_nth:
  assumes "has_shape2 K D t" and "k < K"
  shows "length (t ! k) = D"
  using assms by (simp add: has_shape2_def list_all_length)

lemma decoder_input_mask:
  assumes "has_shape3 B K D out" and "0 < B" and "0 < K"
  shows "\<exists>flat. decoder_input (int K) out = Some (norm_last out, flat) \<and> length flat = B
          \<and> (\<forall>b<B. \<exists>j<K. (\<forall>k<K. norm_last out ! b ! k \<le> norm_last out ! b ! j)
                  \<and> (\<forall>k<j. norm_last out ! b ! k < norm_last out ! b ! j)
                  \<and> flat ! b = concat (map (\<lambda>k. if k = j then out ! b ! k else replicate D 0) [0..<K]))"
proof -
  let ?preds = "norm_last out"
  let ?idx = "map (\<lambda>r. the (argmax r)) ?preds"
  let ?E = "map (\<lambda>i. map (\<lambda>j. if i = j then 1 else (0::real)) [0..<K]) [0..<K]"
  let ?y = "map (\<lambda>i. ?E ! i) ?idx"
  let ?masked = "map2 (\<lambda>caps sel. map2 (\<lambda>cap m. map (\<lambda>a. a * m) cap) caps sel) out ?y"
  have lenB: "length out = B" using assms(1) by (simp add: has_shape3_def)
  have rowK: "\<And>b. b < B \<Longrightarrow> length (out ! b) = K"
    using has_shape3_nth [OF assms(1)] by (simp add: has_shape2_def)
  have predrow: "\<And>b. b < B \<Longrightarrow> ?preds ! b = map vector_norm (out ! b)"
    using lenB by (simp add: norm_last_def)
  have am: "\<And>b. b < B \<Longrightarrow> \<exists>j. argmax (?preds ! b) = Some j \<and> j < K
      \<and> (\<forall>k<K. ?preds ! b ! k \<le> ?preds ! b ! j) \<and> (\<forall>k<j. ?preds ! b ! k < ?preds ! b ! j)"
  proof -
    fix b assume b: "b < B"
    have l: "length (?preds ! b) = K" using b rowK predrow by simp
    then have "?preds ! b \<noteq> []" using assms(3) by auto
    from argmax_first_maximum [OF this] show "\<exists>j. argmax (?preds ! b) = Some j \<and> j < K
      \<and> (\<forall>k<K. ?preds ! b ! k \<le> ?preds ! b ! j) \<and> (\<forall>k<j. ?preds ! b ! k < ?preds ! b ! j)"
      using l by simp
  qed
  have "those (map argmax ?preds) = Some ?idx"
  proof (rule those_map_Some)
    fix r assume "r \<in> set ?preds"
    then obtain b where "b < B" "r = ?preds ! b"
      using lenB by (auto simp: in_set_conv_nth norm_last_def)
    then show "argmax r = Some (the (argmax r))" using am by fastforce
  qed
  then have 1: "max_dim1 ?preds = Some ?idx" by (simp add: max_dim1_def)
  have 2: "eye (int K) = Some ?E" by (simp add: eye_def)
  have idxK: "\<And>b. b < B \<Longrightarrow> ?idx ! b < K"
  proof -
    fix b assume b: "b < B"
    then have "?idx ! b = the (argmax (?preds ! b))" using lenB by (simp add: norm_last_def)
    then show "?idx ! b < K" using am [OF b] by auto
  qed
  have "list_all (\<lambda>i. i < length ?E) ?idx"
    using idxK lenB by (simp add: list_all_length norm_last_def)
  then have 3: "index_select0 ?E ?idx = Some ?y" by (simp add: index_select0_def)
  have leny: "length ?y = B" using lenB by (simp add: norm_last_def)
  have yrow: "\<And>b. b < B \<Longrightarrow> ?y ! b = map (\<lambda>k. if ?idx ! b = k then 1 else 0) [0..<K]"
  proof -
    fix b assume b: "b < B"
    have "?y ! b = ?E ! (?idx ! b)" using b lenB by (simp add: norm_last_def)
    then show "?y ! b = map (\<lambda>k. if ?idx ! b = k then 1 else 0) [0..<K]"
      using idxK [OF b] by simp
  qed
  have 4: "tmul3 out (unsqueeze2 ?y) = Some ?masked"
  proof (rule mask_batch)
    show "length out = length ?y" using lenB leny by simp
  next
    fix caps sel assume "(caps, sel) \<in> set (zip out ?y)"
    then obtain b where b: "b < B" "caps = out ! b" "sel = ?y ! b"
      using lenB leny by (auto simp: in_set_zip)
    then show "length caps = length sel" using rowK yrow by simp
  qed
  have lenm: "length ?masked = B" using lenB leny by simp
  have mrow: "\<And>b. b < B \<Longrightarrow> ?masked ! b
      = map2 (\<lambda>cap m. map (\<lambda>a. a * m) cap) (out ! b) (map (\<lambda>k. if ?idx ! b = k then 1 else 0) [0..<K])"
  proof -
    fix b assume b: "b < B"
    then have "?masked ! b = map2 (\<lambda>cap m. map (\<lambda>a. a * m) cap) (out ! b) (?y ! b)"
      using lenB leny by simp
    then show "?masked ! b
      = map2 (\<lambda>cap m. map (\<lambda>a. a * m) cap) (out ! b) (map (\<lambda>k. if ?idx ! b = k then 1 else 0) [0..<K])"
      using yrow [OF b] by simp
  qed
  have "\<And>b. b < B \<Longrightarrow> has_shape2 K D (?masked ! b)"
  proof -
    fix b assume b: "b < B"
    have s2: "has_shape2 K D (out ! b)" by (rule has_shape3_nth [OF assms(1) b])
    have "map2 (\<lambda>cap m. map (\<lambda>a. a * m) cap) (out ! b) (map (\<lambda>k. if ?idx ! b = k then 1 else 0) [0..<K])
        = map (\<lambda>k. map (\<lambda>a. a * (if ?idx ! b = k then 1 else 0)) (out ! b ! k)) [0..<K]"
      by (rule map2_upt [OF rowK [OF b]])
    moreover have "has_shape2 K D
        (map (\<lambda>k. map (\<lambda>a. a * (if ?idx ! b = k then 1 else 0)) (out ! b ! k)) [0..<K])"
      using has_shape2_nth [OF s2] by (simp add: has_shape2_def list_all_length)
    ultimately have "has_shape2 K D (map2 (\<lambda>cap m. map (\<lambda>a. a * m) cap) (out ! b)
        (map (\<lambda>k. if ?idx ! b = k then 1 else 0) [0..<K]))"
      by (simp only:)
    then show "has_shape2 K D (?masked ! b)"
      by (subst mrow [OF b])
  qed
  then have "has_shape3 B K D ?masked"
    using lenm by (simp add: has_shape3_def list_all_length)
  then have "view_rows B ?masked = Some (map concat ?masked)"
    using assms(2) by (rule view_rows_shape3)
  then have 5: "view_rows (length out) ?masked = Some (map concat ?masked)" using lenB by simp
  have d: "decoder_input (int K) out = Some (?preds, map concat ?masked)"
    unfolding decoder_input_def Let_def by (simp only: 1 2 3 4 5 Option.bind.simps)
  have "\<And>b. b < B \<Longrightarrow> \<exists>j<K. (\<forall>k<K. ?preds ! b ! k \<le> ?preds ! b ! j)
                  \<and> (\<forall>k<j. ?preds ! b ! k < ?preds ! b ! j)
                  \<and> map concat ?masked ! b = concat (map (\<lambda>k. if k = j then out ! b ! k else replicate D 0) [0..<K])"
  proof -
    fix b assume b: "b < B"
    obtain j where j: "argmax (?preds ! b) = Some j" "j < K"
      "\<forall>k<K. ?preds ! b ! k \<le> ?preds ! b ! j" "\<forall>k<j. ?preds ! b ! k < ?preds ! b ! j"
      using am [OF b] by blast
    have ij: "?idx ! b = j" using b lenB j(1) by (simp add: norm_last_def)
    have "map concat ?masked ! b = concat (?masked ! b)" using b lenm by simp
    also have "\<dots> = concat (map2 (\<lambda>cap m. map (\<lambda>a. a * m) cap) (out ! b)
        (map (\<lambda>k. if j = k then 1 else 0) [0..<K]))"
      using mrow [OF b] ij by simp
    also have "\<dots> = concat (map (\<lambda>k. if k = j then out ! b ! k else replicate D 0) [0..<K])"
      by (rule masked_capsules [OF has_shape3_nth [OF assms(1) b] j(2)])
    finally show "\<exists>j<K. (\<forall>k<K. ?preds ! b ! k \<le> ?preds ! b ! j)
                  \<and> (\<forall>k<j. ?preds ! b ! k < ?preds ! b ! j)
                  \<and> map concat ?masked ! b = concat (map (\<lambda>k. if k = j then out ! b ! k else replicate D 0) [0..<K])"
      using j by blast
  qed
  then show ?thesis using d lenm by (intro exI [of _ "map concat ?masked"]) simp
qed

subsection \<open>The reconstruction mask\<close>

text \<open>
  C4. In a forward pass whose second routing stage yields \<open>out\<close> of shape
  \<open>[B, K, D]\<close>, with \<open>K = num_classes\<close> and at least one example and one class,
  the decoder is applied to one row per example. For example \<open>b\<close> there is one
  class \<open>j\<close>: its length is maximal, every class of lower index is strictly shorter
  (so among equally long capsules the lowest index is taken), and the row is the
  capsule of \<open>j\<close> at its place with zeros at the places of all other classes.
\<close>

theorem reconstruction_mask_selects_one_class:
  assumes "first_stage net x = Some c0"
    and "run_blocks (blocks net) c0 [] = Some (c1, layers)"
    and "caps2 net c1 = Some out"
    and "has_shape3 B K D out" and "net_num_classes net = int K" and "0 < B" and "0 < K"
  shows "\<exists>flat. length flat = B
          \<and> CapsuleNetwork_forward net x
              = do { r \<leftarrow> decoder net flat; r' \<leftarrow> view_images (img_shape net) r;
                     Some (norm_last out, r', layers) }
          \<and> (\<forall>b<B. \<exists>j<K. (\<forall>k<K. norm_last out ! b ! k \<le> norm_last out ! b ! j)
                  \<and> (\<forall>k<j. norm_last out ! b ! k < norm_last out ! b ! j)
                  \<and> flat ! b = concat (map (\<lambda>k. if k = j then out ! b ! k else replicate D 0) [0..<K]))"
proof -
  obtain flat where flat: "decoder_input (int K) out = Some (norm_last out, flat)" "length flat = B"
    "\<forall>b<B. \<exists>j<K. (\<forall>k<K. norm_last out ! b ! k \<le> norm_last out ! b ! j)
                  \<and> (\<forall>k<j. norm_last out ! b ! k < norm_last out ! b ! j)
                  \<and> flat ! b = concat (map (\<lambda>k. if k = j then out ! b ! k else replicate D 0) [0..<K])"
    using decoder_input_mask [OF assms(4) assms(6) assms(7)] by blast
  have "CapsuleNetwork_forward net x
      = do { r \<leftarrow> decoder net flat; r' \<leftarrow> view_images (img_shape net) r;
             Some (norm_last out, r', layers) }"
    by (simp add: CapsuleNetwork_forward_def assms(1,2,3,5) flat(1))
  then show ?thesis using flat(2,3) by blast
qed

lemma sqrt_25: "sqrt 25 = 5"
  using real_sqrt_abs [of 5] by simp

lemma example_network_stages:
  "first_stage example_network [[[[0, 0], [0, 0]]]] = Some [[[0, 0], [0, 0]]]"
  "run_blocks (blocks example_network) [[[0, 0], [0, 0]]] []
     = Some ([[[0, 0], [0, 0]]], [[[[0, 0], [0, 0]]]])"
  "caps2 example_network [[[0, 0], [0, 0]]] = Some [[[3, 4], [5, 0]]]"
  "norm_last [[[3, 4], [5, 0]]] = [[5, 5]]"
  by (simp_all add: first_stage_def example_network_def ReLU4_def relu_def
      ResCapsBlock_forward_def halve_def tadd3_def broadcast2_def
      norm_last_def vector_norm_def sqrt_25)

theorem reconstruction_mask_selects_one_class_witness:
  "\<exists>flat. flat = [[3, 4, 0, 0]]
     \<and> CapsuleNetwork_forward example_network [[[[0, 0], [0, 0]]]]
         = do { r \<leftarrow> decoder example_network flat;
                r' \<leftarrow> view_images (img_shape example_network) r;
                Some ([[5, 5]], r', [[[[0, 0], [0, 0]]]]) }"
proof -
  have sh: "has_shape3 1 2 2 [[[3, 4], [5, 0 :: real]]]"
    by (simp add: has_shape3_def has_shape2_def)
  have nc: "net_num_classes example_network = int 2" by (simp add: example_network_def)
  obtain flat where flat: "length flat = 1"
    "CapsuleNetwork_forward example_network [[[[0, 0], [0, 0]]]]
       = do { r \<leftarrow> decoder example_network flat;
              r' \<leftarrow> view_images (img_shape example_network) r;
              Some (norm_last [[[3, 4], [5, 0]]], r', [[[[0, 0], [0, 0]]]]) }"
    "\<forall>b<1. \<exists>j<2. (\<forall>k<2. norm_last [[[3, 4], [5, 0]]] ! b ! k \<le> norm_last [[[3, 4], [5, 0]]] ! b ! j)
        \<and> (\<forall>k<j. norm_last [[[3, 4], [5, 0]]] ! b ! k < norm_last [[[3, 4], [5, 0]]] ! b ! j)
        \<and> flat ! b = concat (map (\<lambda>k. if k = j then [[[3, 4], [5, 0]]] ! b ! k else replicate 2 0) [0..<2])"
    using reconstruction_mask_selects_one_class [OF example_network_stages(1,2,3) sh nc]
    by (auto simp del: upt_Suc)
  from flat(3) obtain j where j: "j < 2"
    "\<forall>k<j. [[5, 5 :: real]] ! 0 ! k < [[5, 5]] ! 0 ! j"
    "flat ! 0 = concat (map (\<lambda>k. if k = j then [[[3, 4], [5, 0]]] ! 0 ! k else replicate 2 0) [0..<2])"
    by (auto simp: example_network_stages(4) simp del: upt_Suc)
  have "j = 0"
  proof (rule ccontr)
    assume "j \<noteq> 0"
    then have "j = 1" using j(1) by simp
    then show False using j(2) [rule_format, of 0] by simp
  qed
  then have "flat ! 0 = [3, 4, 0, 0]" using j(3) by (simp add: numeral_2_eq_2)
  then have "flat = [[3, 4, 0, 0]]" using flat(1) by (cases flat) auto
  then show ?thesis using flat(2) by (simp add: example_network_stages(4))
qed

subsection \<open>The stack of blocks\<close>

lemma apply_functions_shape:
  assumes "\<forall>f \<in> set fs. shape_contract B N D N D f" and "has_shape3 B N D x"
  shows "\<exists>y. apply_functions sk fs x = Some y \<and> has_shape3 B N D y"
  using assms
proof (induction fs arbitrary: x)
  case Nil
  then show ?case by simp
next
  case (Cons f fs)
  obtain y where y: "f x = Some y" "has_shape3 B N D y"
    using Cons.prems by (auto simp: shape_contract_def)
  show ?case
  proof (cases sk)
    case True
    have a: "tadd3 x y = Some (add3 x y)" by (rule tadd3_same_shape [OF Cons.prems(2) y(2)])
    have "has_shape3 B N D (add3 x y)" by (rule add3_shape [OF Cons.prems(2) y(2)])
    then obtain z where "apply_functions sk fs (add3 x y) = Some z" "has_shape3 B N D z"
      using Cons.IH Cons.prems(1) by auto
    then show ?thesis using True y(1) a by simp
  next
    case False
    obtain z where "apply_functions sk fs y = Some z" "has_shape3 B N D z"
      using Cons.IH [OF _ y(2)] Cons.prems(1) by auto
    then show ?thesis using False y(1) by simp
  qed
qed

lemma run_blocks_shape:
  assumes "\<forall>blk \<in> set bs. \<forall>f \<in> set (functions blk). shape_contract B N D N D f"
    and "has_shape3 B N D c"
  shows "\<exists>c' ls'. run_blocks bs c ls = Some (c', ls') \<and> has_shape3 B N D c'"
  using assms
proof (induction bs arbitrary: c ls)
  case Nil
  then show ?case by simp
next
  case (Cons b bs)
  have "\<forall>f \<in> set (functions b). shape_contract B N D N D f" using Cons.prems(1) by simp
  from apply_functions_shape [OF this Cons.prems(2)]
  obtain y where y: "ResCapsBlock_forward b c = Some y" "has_shape3 B N D y"
    by (auto simp: ResCapsBlock_forward_def)
  obtain c' ls' where "run_blocks bs y (ls @ [y]) = Some (c', ls')" "has_shape3 B N D c'"
    using Cons.IH [OF _ y(2)] Cons.prems(1) by fastforce
  then show ?case using y(1) by simp
qed

lemma run_blocks_accumulator:
  "run_blocks bs c ls = map_option (\<lambda>(c', new). (c', ls @ new)) (run_blocks bs c [])"
proof (induction bs arbitrary: c ls)
  case Nil
  show ?case by simp
next
  case (Cons b bs)
  show ?case
  proof (cases "ResCapsBlock_forward b c")
    case None
    then show ?thesis by simp
  next
    case (Some y)
    have "run_blocks bs y (ls @ [y])
        = map_option (\<lambda>(c', new). (c', (ls @ [y]) @ new)) (run_blocks bs y [])"
      by (rule Cons.IH)
    moreover have "run_blocks bs y [y]
        = map_option (\<lambda>(c', new). (c', [y] @ new)) (run_blocks bs y [])"
      using Cons.IH [of y "[y]"] by simp
    ultimately show ?thesis
      using Some by (cases "run_blocks bs y []") auto
  qed
qed

lemma run_blocks_outputs:
  assumes "run_blocks bs c [] = Some (c', new)"
  shows "length new = length bs \<and> c' = last (c # new)"
  using assms
proof (induction bs arbitrary: c new)
  case Nil
  then show ?case by simp
next
  case (Cons b bs)
  obtain y where y: "ResCapsBlock_forward b c = Some y" "run_blocks bs y [y] = Some (c', new)"
    using Cons.prems by (auto split: Option.bind_splits)
  obtain n2 where n2: "run_blocks bs y [] = Some (c', n2)" "new = [y] @ n2"
    using y(2) run_blocks_accumulator [of bs y "[y]"] by (cases "run_blocks bs y []") auto
  have "length n2 = length bs \<and> c' = last (y # n2)" by (rule Cons.IH [OF n2(1)])
  then show ?case using n2(2) by simp
qed

lemma run_blocks_stepwise:
  assumes "run_blocks bs c [] = Some (c', new)"
  shows "\<forall>i<length bs. ResCapsBlock_forward (bs ! i) ((c # new) ! i) = Some (new ! i)"
  using assms
proof (induction bs arbitrary: c new)
  case Nil
  then show ?case by simp
next
  case (Cons b bs)
  obtain y where y: "ResCapsBlock_forward b c = Some y" "run_blocks bs y [y] = Some (c', new)"
    using Cons.prems by (auto split: Option.bind_splits)
  obtain n2 where n2: "run_blocks bs y [] = Some (c', n2)" "new = y # n2"
    using y(2) run_blocks_accumulator [of bs y "[y]"] by (cases "run_blocks bs y []") auto
  have ih: "\<forall>i<length bs. ResCapsBlock_forward (bs ! i) ((y # n2) ! i) = Some (n2 ! i)"
    by (rule Cons.IH [OF n2(1)])
  show ?case
  proof (intro allI impI)
    fix i assume i: "i < length (b # bs)"
    show "ResCapsBlock_forward ((b # bs) ! i) ((c # new) ! i) = Some (new ! i)"
    proof (cases i)
      case 0
      then show ?thesis using y(1) n2(2) by simp
    next
      case (Suc j)
      then have "j < length bs" using i by simp
      then show ?thesis using ih Suc n2(2) by simp
    qed
  qed
qed

subsection \<open>The shape contract of the routing layer\<close>

lemma route_output_shape:
  assumes "0 < epsilon L"
  shows "\<exists>v. route_output L u b = Some v \<and> has_shape2 (out_caps L) (out_dim L) v"
proof -
  let ?s = "\<lambda>j. weighted_sum L (map softmax b) u j"
  let ?c = "\<lambda>s. (vector_norm s)\<^sup>2 / ((1 + (vector_norm s)\<^sup>2) * max (vector_norm s) (epsilon L))"
  let ?g = "\<lambda>j. map (\<lambda>x. ?c (?s j) * x) (?s j)"
  have "those (map (\<lambda>j. squash (epsilon L) (?s j)) [0..<out_caps L])
      = Some (map ?g [0..<out_caps L])"
    by (rule those_map_Some) (rule squash_guarded [OF assms])
  then have "route_output L u b = Some (map ?g [0..<out_caps L])"
    by (simp add: route_output_def)
  moreover have "\<And>j. length (?g j) = out_dim L"
    by (simp add: weighted_sum_def)
  then have "has_shape2 (out_caps L) (out_dim L) (map ?g [0..<out_caps L])"
    by (simp add: has_shape2_def list_all_iff)
  ultimately show ?thesis by blast
qed

lemma routing_loop_shape:
  assumes "0 < epsilon L" and "0 < n"
  shows "\<exists>v. routing_loop n L u b = Some v \<and> has_shape2 (out_caps L) (out_dim L) v"
  using assms(2)
proof (induction n arbitrary: b)
  case 0
  then show ?case by simp
next
  case (Suc n)
  show ?case
  proof (cases n)
    case 0
    then show ?thesis using route_output_shape [OF assms(1)] by simp
  next
    case (Suc m)
    obtain v where v: "route_output L u b = Some v"
      using route_output_shape [OF assms(1)] by blast
    have "\<exists>v'. routing_loop n L u (agreement_update L u v b) = Some v'
        \<and> has_shape2 (out_caps L) (out_dim L) v'"
      using Suc.IH Suc by simp
    then show ?thesis using v Suc by simp
  qed
qed

text \<open>
  The routing layer keeps its shape contract (section 8 of the spec) for every batch
  size, when its epsilon is positive and it runs at least one iteration.
\<close>

lemma RoutingCapsules_forward_contract:
  assumes "0 < epsilon L" and "0 < routing_iterations L"
    and "has_shape4 (out_caps L) (in_caps L) (out_dim L) (in_dim L) (W L)"
  shows "shape_contract B (in_caps L) (in_dim L) (out_caps L) (out_dim L) (RoutingCapsules_forward L)"
  unfolding shape_contract_def
proof (intro allI impI)
  fix t :: tensor3 assume t: "has_shape3 B (in_caps L) (in_dim L) t"
  let ?g = "\<lambda>x. the (route_example L x)"
  have ex: "\<And>x. x \<in> set t \<Longrightarrow> route_example L x = Some (?g x)
      \<and> has_shape2 (out_caps L) (out_dim L) (?g x)"
  proof -
    fix x assume "x \<in> set t"
    then have "has_shape2 (in_caps L) (in_dim L) x" using t has_shape3_row by blast
    then have "route_example L x = routing_loop (routing_iterations L) L (u_hat L x)
             (replicate (in_caps L) (replicate (out_caps L) 0))"
      using assms(3) by (simp add: route_example_def)
    then show "route_example L x = Some (?g x) \<and> has_shape2 (out_caps L) (out_dim L) (?g x)"
      using routing_loop_shape [OF assms(1) assms(2)] by (metis option.sel)
  qed
  have "those (map (route_example L) t) = Some (map ?g t)"
    by (rule those_map_Some) (use ex in blast)
  moreover have "\<forall>x \<in> set t. has_shape2 (out_caps L) (out_dim L) (?g x)"
    using ex by blast
  then have "has_shape3 B (out_caps L) (out_dim L) (map ?g t)"
    using t by (simp add: has_shape3_def list_all_iff)
  ultimately show "\<exists>t'. RoutingCapsules_forward L t = Some t' \<and> has_shape3 B (out_caps L) (out_dim L) t'"
    by (simp add: RoutingCapsules_forward_def)
qed

lemma uniform_layer_contract:
  assumes "0 < r"
  shows "shape_contract B N Din N' D' (RoutingCapsules_forward (uniform_layer Din N N' D' r w))"
proof -
  let ?L = "uniform_layer Din N N' D' r w"
  have "shape_contract B (in_caps ?L) (in_dim ?L) (out_caps ?L) (out_dim ?L) (RoutingCapsules_forward ?L)"
    by (rule RoutingCapsules_forward_contract)
      (simp_all add: uniform_layer_def assms has_shape4_def has_shape3_def has_shape2_def
        list_all_iff)
  then show ?thesis by (simp add: uniform_layer_def)
qed

subsection \<open>The forward pass of the network\<close>

lemma norm_last_shape:
  assumes "has_shape3 B K D out"
  shows "has_shape2 B K (norm_last out)"
  using assms by (simp add: has_shape3_def has_shape2_def norm_last_def list_all_length)

lemma ReLU4_shape:
  assumes "has_shape4 B C H V t"
  shows "\<exists>t'. ReLU4 t = Some t' \<and> has_shape4 B C H V t'"
  using assms
  by (simp add: ReLU4_def has_shape4_def has_shape3_def has_shape2_def list_all_iff)

text \<open>
  C5. Let the layers keep their shape contracts for a batch size \<open>B\<close>: the
  convolution and the primary layer map image batches \<open>[B, c, h, w]\<close> to capsules,
  the routing stages and block functions map capsules to capsules, and the decoder
  maps \<open>[B, K * D']\<close> to \<open>[B, c * h * w]\<close>, with \<open>K = num_classes\<close> and \<open>(c, h, w)\<close>
  the image shape, all sizes positive. Then for every input of shape \<open>[B, c, h, w]\<close>
  the forward pass returns a triple: the scores have shape \<open>[B, K]\<close> and entry
  \<open>[b, k]\<close> is the Euclidean norm of output capsule \<open>k\<close> of example \<open>b\<close>; the
  reconstructions have shape \<open>[B, c, h, w]\<close>; and the third component has one entry
  per block, in block order: entry \<open>i\<close> is what block \<open>i\<close> returns on entry \<open>i - 1\<close>
  (block 0 on the output of the first routing stage, which is applied to the primary
  capsules of the rectified convolution), and the output capsules are what the second
  routing stage returns on the last entry.
\<close>

theorem forward_result_shapes:
  assumes "has_shape4 B c h w x" and "img_shape net = (c, h, w)"
    and "net_num_classes net = int K"
    and "0 < B" and "0 < K" and "0 < c * h * w"
    and "contract (has_shape4 B c h w) (has_shape4 B c' h' w') (conv1 net)"
    and "contract (has_shape4 B c' h' w') (has_shape3 B N0 D0) (primary net)"
    and "shape_contract B N0 D0 N D (caps1 net)"
    and "\<forall>blk \<in> set (blocks net). \<forall>f \<in> set (functions blk). shape_contract B N D N D f"
    and "shape_contract B N D K D' (caps2 net)"
    and "contract (has_shape2 B (K * D')) (has_shape2 B (c * h * w)) (decoder net)"
  shows "\<exists>preds recon layers a p c0 out.
           CapsuleNetwork_forward net x = Some (preds, recon, layers)
         \<and> conv1 net x = Some a
         \<and> primary net (map (map (map (map relu))) a) = Some p
         \<and> caps1 net p = Some c0
         \<and> length layers = length (blocks net)
         \<and> (\<forall>i<length (blocks net).
               ResCapsBlock_forward (blocks net ! i) ((c0 # layers) ! i) = Some (layers ! i))
         \<and> caps2 net (last (c0 # layers)) = Some out
         \<and> has_shape2 B K preds \<and> (\<forall>b<B. \<forall>k<K. preds ! b ! k = vector_norm (out ! b ! k))
         \<and> has_shape4 B c h w recon"
proof -
  obtain a where a: "conv1 net x = Some a" "has_shape4 B c' h' w' a"
    using assms(7) assms(1) by (auto simp: contract_def)
  obtain a' where a': "ReLU4 a = Some a'" "has_shape4 B c' h' w' a'"
    using ReLU4_shape [OF a(2)] by blast
  obtain p where p0: "primary net a' = Some p" "has_shape3 B N0 D0 p"
    using assms(8) a'(2) by (auto simp: contract_def)
  obtain c0 where c0: "caps1 net p = Some c0" "has_shape3 B N D c0"
    using assms(9) p0(2) by (auto simp: shape_contract_def)
  have fs: "first_stage net x = Some c0"
    by (simp add: first_stage_def a(1) a'(1) p0(1) c0(1))
  obtain c1 layers where rb: "run_blocks (blocks net) c0 [] = Some (c1, layers)"
    "has_shape3 B N D c1"
    using run_blocks_shape [OF assms(10) c0(2)] by blast
  obtain out where out: "caps2 net c1 = Some out" "has_shape3 B K D' out"
    using assms(11) rb(2) by (auto simp: shape_contract_def)
  obtain flat where flat: "decoder_input (int K) out = Some (norm_last out, flat)" "length flat = B"
    "\<forall>b<B. \<exists>j<K. (\<forall>k<K. norm_last out ! b ! k \<le> norm_last out ! b ! j)
                  \<and> (\<forall>k<j. norm_last out ! b ! k < norm_last out ! b ! j)
                  \<and> flat ! b = concat (map (\<lambda>k. if k = j then out ! b ! k else replicate D' 0) [0..<K])"
    using decoder_input_mask [OF out(2) assms(4) assms(5)] by blast
  have "\<And>b. b < B \<Longrightarrow> length (flat ! b) = K * D'"
  proof -
    fix b assume b: "b < B"
    obtain j where j: "flat ! b = concat (map (\<lambda>k. if k = j then out ! b ! k else replicate D' 0) [0..<K])"
      using flat(3) b by blast
    have s2: "has_shape2 K D' (out ! b)" by (rule has_shape3_nth [OF out(2) b])
    have "length (concat (map (\<lambda>k. if k = j then out ! b ! k else replicate D' 0) [0..<K]))
        = length (map (\<lambda>k. if k = j then out ! b ! k else replicate D' 0) [0..<K]) * D'"
      by (rule length_concat_const) (use has_shape2_nth [OF s2] in auto)
    then show "length (flat ! b) = K * D'" using j by simp
  qed
  then have "has_shape2 B (K * D') flat"
    using flat(2) by (simp add: has_shape2_def list_all_length)
  then obtain r where r: "decoder net flat = Some r" "has_shape2 B (c * h * w) r"
    using assms(12) by (auto simp: contract_def)
  obtain recon where recon: "view_images (c, h, w) r = Some recon" "has_shape4 B c h w recon"
    using view_images_shape [OF r(2) assms(6)] by blast
  have fw: "CapsuleNetwork_forward net x = Some (norm_last out, recon, layers)"
    by (simp add: CapsuleNetwork_forward_def fs rb(1) out(1) assms(3) flat(1) r(1)
        assms(2) recon(1))
  have p: "has_shape2 B K (norm_last out)" by (rule norm_last_shape [OF out(2)])
  have lenB: "length out = B" using out(2) by (simp add: has_shape3_def)
  have pv: "\<forall>b<B. \<forall>k<K. norm_last out ! b ! k = vector_norm (out ! b ! k)"
  proof (intro allI impI)
    fix b k assume b: "b < B" and k: "k < K"
    have "length (out ! b) = K"
      using has_shape3_nth [OF out(2) b] by (simp add: has_shape2_def)
    then show "norm_last out ! b ! k = vector_norm (out ! b ! k)"
      using b k lenB by (simp add: norm_last_def)
  qed
  have ll: "length layers = length (blocks net)"
    using run_blocks_outputs [OF rb(1)] by simp
  have step: "\<forall>i<length (blocks net).
      ResCapsBlock_forward (blocks net ! i) ((c0 # layers) ! i) = Some (layers ! i)"
    by (rule run_blocks_stepwise [OF rb(1)])
  have "c1 = last (c0 # layers)" using run_blocks_outputs [OF rb(1)] by simp
  then have fin: "caps2 net (last (c0 # layers)) = Some out" using out(1) by simp
  have a'': "a' = map (map (map (map relu))) a" using a'(1) by (simp add: ReLU4_def)
  have pr: "primary net (map (map (map (map relu))) a) = Some p" using p0(1) a'' by simp
  show ?thesis
    using fw a(1) pr c0(1) ll step fin p pv recon(2) by blast
qed

text \<open>
  The forward pass of the example network on a zero image.
\<close>

lemma example_forward:
  "CapsuleNetwork_forward example_network [[[[0, 0], [0, 0]]]]
     = Some ([[5, 5]], [[[[sigmoid 3, sigmoid 4], [sigmoid 0, sigmoid 0]]]], [[[[0, 0], [0, 0]]]])"
proof -
  have d: "decoder_input 2 [[[3, 4], [5, 0]]] = Some ([[5, 5]], [[3, 4, 0, 0]])"
    by (simp add: decoder_input_def example_network_stages(4) max_dim1_def argmax_def eye_def
        index_select0_def unsqueeze2_def tmul3_def broadcast2_def view_rows_def pieces_def
        numeral_2_eq_2)
  have v: "view_images (Suc 0, 2, 2) [[sigmoid 3, sigmoid 4, sigmoid 0, sigmoid 0]]
      = Some [[[[sigmoid 3, sigmoid 4], [sigmoid 0, sigmoid 0]]]]"
    by (simp add: view_images_def pieces_def numeral_2_eq_2)
  have f: "net_num_classes example_network = 2" "decoder example_network = Sigmoid"
    "img_shape example_network = (Suc 0, 2, 2)"
    by (simp_all add: example_network_def)
  show ?thesis
    by (simp add: CapsuleNetwork_forward_def example_network_stages(1,2,3) f d Sigmoid_def v)
qed

text \<open>
  The layers of the routing network keep their contracts, for every batch size.
\<close>

lemma routing_network_contracts:
  "contract (has_shape4 B 1 2 2) (has_shape4 B 1 2 2) (conv1 routing_network)"
  "contract (has_shape4 B 1 2 2) (has_shape3 B 4 2) (primary routing_network)"
  "shape_contract B 4 2 3 2 (caps1 routing_network)"
  "\<forall>blk \<in> set (blocks routing_network). \<forall>f \<in> set (functions blk). shape_contract B 3 2 3 2 f"
  "shape_contract B 3 2 2 3 (caps2 routing_network)"
  "contract (has_shape2 B (2 * 3)) (has_shape2 B (1 * 2 * 2)) (decoder routing_network)"
proof -
  show "contract (has_shape4 B 1 2 2) (has_shape4 B 1 2 2) (conv1 routing_network)"
    by (simp add: routing_network_def contract_def)
  show "contract (has_shape4 B 1 2 2) (has_shape3 B 4 2) (primary routing_network)"
  proof -
    have "\<And>e :: real list list list. has_shape3 1 2 2 e \<Longrightarrow> has_shape2 4 2 (concat e @ concat e)"
    proof -
      fix e :: "real list list list" assume e: "has_shape3 1 2 2 e"
      then obtain m where "e = [m]" by (cases e) (auto simp: has_shape3_def)
      then show "has_shape2 4 2 (concat e @ concat e)"
        using e by (simp add: has_shape3_def has_shape2_def)
    qed
    then show ?thesis
      by (simp add: routing_network_def contract_def has_shape4_def
          has_shape3_def [of _ 4 2 "map _ _"] list_all_iff)
  qed
  show "shape_contract B 4 2 3 2 (caps1 routing_network)"
    by (simp add: routing_network_def uniform_layer_contract)
  show "\<forall>blk \<in> set (blocks routing_network). \<forall>f \<in> set (functions blk). shape_contract B 3 2 3 2 f"
    by (simp add: routing_network_def uniform_layer_contract)
  show "shape_contract B 3 2 2 3 (caps2 routing_network)"
    by (simp add: routing_network_def uniform_layer_contract)
  show "contract (has_shape2 B (2 * 3)) (has_shape2 B (1 * 2 * 2)) (decoder routing_network)"
    by (simp add: routing_network_def contract_def Sigmoid_def has_shape2_def list_all_iff)
qed

theorem forward_result_shapes_witness:
  "\<exists>preds recon layers c0.
       CapsuleNetwork_forward routing_network [[[[1, 2], [3, 4]]], [[[0, 0], [0, 0]]]]
         = Some (preds, recon, layers)
     \<and> has_shape2 2 2 preds \<and> has_shape4 2 1 2 2 recon
     \<and> length layers = 1
     \<and> ResCapsBlock_forward (blocks routing_network ! 0) c0 = Some (layers ! 0)"
proof -
  have x: "has_shape4 2 1 2 2 [[[[1, 2], [3, 4]]], [[[0, 0], [0, 0 :: real]]]]"
    by (simp add: has_shape4_def has_shape3_def has_shape2_def)
  have img: "img_shape routing_network = (1, 2, 2)" by (simp add: routing_network_def)
  have nc: "net_num_classes routing_network = int 2" by (simp add: routing_network_def)
  have pos: "(0::nat) < 2" "(0::nat) < 2" "(0::nat) < 1 * 2 * 2" by simp_all
  have len: "length (blocks routing_network) = 1" by (simp add: routing_network_def)
  from forward_result_shapes [OF x img nc pos routing_network_contracts]
  obtain preds recon layers c0 where r:
    "CapsuleNetwork_forward routing_network [[[[1, 2], [3, 4]]], [[[0, 0], [0, 0]]]]
       = Some (preds, recon, layers)"
    "has_shape2 2 2 preds" "has_shape4 2 1 2 2 recon"
    "length layers = length (blocks routing_network)"
    "\<forall>i<length (blocks routing_network).
       ResCapsBlock_forward (blocks routing_network ! i) ((c0 # layers) ! i) = Some (layers ! i)"
    by blast
  have "ResCapsBlock_forward (blocks routing_network ! 0) c0 = Some (layers ! 0)"
    using r(5) [rule_format, of 0] len by simp
  then show ?thesis using r(1,2,3,4) len by auto
qed

subsection \<open>Mismatched blocks\<close>

lemma those_None:
  assumes "None \<in> set xs"
  shows "those xs = None"
  using assms by (induction xs) (auto split: option.splits)

text \<open>
  A block whose two routing layers map 32 capsules of dimension 8 to 10 capsules of
  dimension 16 raises on every non-empty input that fits its first layer: with
  \<open>skip\<close> at the first addition, without \<open>skip\<close> in the second layer.
\<close>

lemma mismatched_block_raises_at_forward:
  assumes "has_shape3 B 32 8 x" and "0 < B"
  shows "ResCapsBlock_forward
           \<lparr>skip = sk, functions = [RoutingCapsules_forward (uniform_layer 8 32 10 16 3 w1),
                                     RoutingCapsules_forward (uniform_layer 8 32 10 16 3 w2)]\<rparr> x
         = None"
proof -
  let ?f1 = "RoutingCapsules_forward (uniform_layer 8 32 10 16 3 w1)"
  let ?L2 = "uniform_layer 8 32 10 16 3 w2"
  have "shape_contract B 32 8 10 16 ?f1" by (rule uniform_layer_contract) simp
  then obtain y where y: "?f1 x = Some y" "has_shape3 B 10 16 y"
    using assms(1) by (auto simp: shape_contract_def)
  have lx: "length x = B" "length (x ! 0) = 32"
    using assms has_shape3_nth [OF assms(1), of 0] by (simp_all add: has_shape3_def has_shape2_def)
  have ly: "length y = B" "length (y ! 0) = 10"
    using assms(2) y(2) has_shape3_nth [OF y(2), of 0] by (simp_all add: has_shape3_def has_shape2_def)
  show ?thesis
  proof (cases sk)
    case True
    have "(x ! 0, y ! 0) \<in> set (zip x y)"
      using lx ly assms(2) by (auto simp: in_set_zip)
    moreover have "broadcast2 (broadcast2 (\<lambda>a b. Some (a + b))) (x ! 0) (y ! 0) = None"
      using lx(2) ly(2) by (simp add: broadcast2_def)
    ultimately have "None \<in> set (map2 (broadcast2 (broadcast2 (\<lambda>a b. Some (a + b)))) x y)"
      by force
    then have "tadd3 x y = None"
      using lx(1) ly(1) by (simp add: tadd3_def broadcast2_def [of _ x y] those_None)
    then show ?thesis using True y(1) by (simp add: ResCapsBlock_forward_def)
  next
    case False
    have "\<not> has_shape2 32 8 (y ! 0)" using ly(2) by (simp add: has_shape2_def)
    then have "route_example ?L2 (y ! 0) = None"
      by (simp add: route_example_def uniform_layer_def)
    moreover have "y ! 0 \<in> set y" using ly(1) assms(2) by simp
    ultimately have "None \<in> set (map (route_example ?L2) y)" by force
    then have "RoutingCapsules_forward ?L2 y = None"
      by (simp add: RoutingCapsules_forward_def those_None)
    then show ?thesis using False y(1) by (simp add: ResCapsBlock_forward_def)
  qed
qed

end
